theory Spec2Isabelle
  imports Main "HOL-Library.Word"
begin

section \<open>Data model\<close>

text \<open>
  The storage package of the authentication service (\<^verbatim>\<open>internal/app/storage\<close>) and the
  refresh and logout endpoints of \<^verbatim>\<open>cmd/auth/main.go\<close>.

  A \<^verbatim>\<open>time.Time\<close> is an instant on a linear time line, modelled as an integer count of
  clock ticks; \<^verbatim>\<open>t.After(u)\<close> is \<open>u < t\<close> and \<^verbatim>\<open>t.Add(d)\<close> is \<open>t + d\<close>. A Go
  \<^verbatim>\<open>string\<close> and a \<^verbatim>\<open>[]byte\<close> are byte sequences, that is, HOL strings. A Go
  \<^verbatim>\<open>int\<close> is a signed machine integer of 64 bits, read with \<open>sint\<close>.

  Every method is a function from the state of the store before the call to the state
  after it and the returned error (\<open>None\<close> is \<^verbatim>\<open>nil\<close>). What a call takes from outside the
  program (a clock reading, the order of a \<^verbatim>\<open>range\<close> over a map, a failing write, a
  failing database driver, a fresh UUID) is an argument. The calls are modelled one
  after the other; the stores have no lock, and interleavings of concurrent requests
  are not modelled. The users map holds pointers in Go; the model holds the records
  the pointers refer to, as long as no caller writes through them.
\<close>

type_synonym time = int
type_synonym bytes = string

text \<open>\<^verbatim>\<open>type User struct { ID int; Login, Password, UserID string }\<close>\<close>

record User =
  ID :: "64 word"
  Login :: string
  Password :: string
  UserID :: string

text \<open>The anonymous struct stored in \<^verbatim>\<open>FileStorage.refresh\<close>.\<close>

record refresh_entry =
  TokUserID :: string
  ExpiresAt :: time
  Revoked :: bool

text \<open>
  An open \<^verbatim>\<open>*os.File\<close>: the bytes of the file it refers to and whether the handle has
  been closed. The handle is opened with \<^verbatim>\<open>O_APPEND\<close>, so every write lands at the end.
\<close>

record os_file =
  fcontent :: bytes
  fclosed :: bool

text \<open>
  The errors of the package. The storage layer builds them with \<^verbatim>\<open>fmt.Errorf\<close>; each
  message is one constructor. \<open>ErrDatabase\<close> wraps what the PostgreSQL driver reported.
\<close>

datatype pg_error =
  UniqueViolation    \<comment> \<open>SQLSTATE 23505, a primary key or unique constraint\<close>
| DriverFailure      \<comment> \<open>any other error of \<^verbatim>\<open>pool.Exec\<close> or \<^verbatim>\<open>QueryRow\<close>\<close>

datatype error =
  ErrNoPath                    \<comment> \<open>\<^verbatim>\<open>no FileStoragePath provided\<close>\<close>
| ErrOpen                      \<comment> \<open>\<^verbatim>\<open>can not open users file\<close>\<close>
| ErrLoad error                \<comment> \<open>\<^verbatim>\<open>can not load users from file: %w\<close>\<close>
| ErrUserNotFound string       \<comment> \<open>\<^verbatim>\<open>user not found for login: %s\<close>\<close>
| ErrUserExists string         \<comment> \<open>\<^verbatim>\<open>user already exists with login: %s\<close>\<close>
| ErrFileNotOpened             \<comment> \<open>\<^verbatim>\<open>users file is not opened\<close>\<close>
| ErrProfileNotFound string    \<comment> \<open>\<^verbatim>\<open>profile not found for user: %s\<close>\<close>
| ErrTokenNotFound             \<comment> \<open>\<^verbatim>\<open>refresh token not found\<close>\<close>
| ErrDatabase pg_error         \<comment> \<open>\<^verbatim>\<open>database error: %w\<close>\<close>
| ErrInvalid                   \<comment> \<open>\<^verbatim>\<open>os.ErrInvalid\<close>, a method of a nil \<^verbatim>\<open>*os.File\<close>\<close>
| ErrClosed                    \<comment> \<open>\<^verbatim>\<open>os.ErrClosed\<close>, the handle is closed\<close>
| ErrShortWrite                \<comment> \<open>the operating system refused part of a write\<close>
| ErrTooLong                   \<comment> \<open>\<^verbatim>\<open>bufio.ErrTooLong\<close>\<close>
| ErrJSON                      \<comment> \<open>an error of \<^verbatim>\<open>json.Unmarshal\<close>\<close>
| ErrSign                      \<comment> \<open>an error of \<^verbatim>\<open>middleware.GenerateToken\<close>\<close>

text \<open>
  \<^verbatim>\<open>type FileStorage struct\<close>. A Go map is a finite partial function; a nil
  \<^verbatim>\<open>usersFile\<close> is \<open>None\<close>.
\<close>

record FileStorage =
  usersFile :: "os_file option"
  users :: "string \<rightharpoonup> User"
  profiles :: "string \<rightharpoonup> string"
  refresh :: "string \<rightharpoonup> refresh_entry"

section \<open>The file realization: profiles and refresh tokens\<close>

definition SetUserProfile :: "FileStorage \<Rightarrow> string \<Rightarrow> string \<Rightarrow> FileStorage \<times> error option" where
  "SetUserProfile f userID email = (f\<lparr>profiles := (profiles f)(userID \<mapsto> email)\<rparr>, None)"

definition GetUserProfile :: "FileStorage \<Rightarrow> string \<Rightarrow> error + string" where
  "GetUserProfile f userID =
     (case profiles f userID of
        Some email \<Rightarrow> Inr email
      | None \<Rightarrow> Inl (ErrProfileNotFound userID))"

text \<open>
  \<^verbatim>\<open>CreateRefreshToken\<close> assigns \<^verbatim>\<open>f.refresh[token]\<close> without looking at what the map
  holds, and returns nil.
\<close>

definition CreateRefreshToken ::
  "FileStorage \<Rightarrow> string \<Rightarrow> string \<Rightarrow> time \<Rightarrow> FileStorage \<times> error option" where
  "CreateRefreshToken f token userID expiresAt =
     (f\<lparr>refresh := (refresh f)(token \<mapsto>
          \<lparr>TokUserID = userID, ExpiresAt = expiresAt, Revoked = False\<rparr>)\<rparr>, None)"

definition GetRefreshToken :: "FileStorage \<Rightarrow> string \<Rightarrow> error + (string \<times> time \<times> bool)" where
  "GetRefreshToken f token =
     (case refresh f token of
        Some r \<Rightarrow> Inr (TokUserID r, ExpiresAt r, Revoked r)
      | None \<Rightarrow> Inl ErrTokenNotFound)"

definition RevokeRefreshToken :: "FileStorage \<Rightarrow> string \<Rightarrow> FileStorage \<times> error option" where
  "RevokeRefreshToken f token =
     (case refresh f token of
        Some r \<Rightarrow> (f\<lparr>refresh := (refresh f)(token \<mapsto> r\<lparr>Revoked := True\<rparr>)\<rparr>, None)
      | None \<Rightarrow> (f, Some ErrTokenNotFound))"

text \<open>
  \<^verbatim>\<open>DeleteExpiredRefreshTokens\<close> ranges over the map and deletes the entries whose expiry
  lies before \<^verbatim>\<open>now\<close>. Go leaves the order of a \<^verbatim>\<open>range\<close> over a map open; the order
  the runtime picks is the list \<open>order\<close> of the keys the loop visits. A key that is no
  longer in the map when its turn comes is not produced. \<open>now\<close> is what
  \<^verbatim>\<open>time.Now()\<close> returned.
\<close>

definition sweep_step :: "time \<Rightarrow> string \<Rightarrow> (string \<rightharpoonup> refresh_entry) \<Rightarrow> (string \<rightharpoonup> refresh_entry)" where
  "sweep_step now k m =
     (case m k of
        None \<Rightarrow> m
      | Some v \<Rightarrow> if ExpiresAt v < now then m(k := None) else m)"

definition DeleteExpiredRefreshTokens ::
  "time \<Rightarrow> string list \<Rightarrow> FileStorage \<Rightarrow> FileStorage \<times> error option" where
  "DeleteExpiredRefreshTokens now order f =
     (f\<lparr>refresh := fold (sweep_step now) order (refresh f)\<rparr>, None)"

section \<open>The users file\<close>

subsection \<open>\<^verbatim>\<open>encoding/json\<close>: marshalling a \<^verbatim>\<open>JSONUserFS\<close>\<close>

text \<open>\<^verbatim>\<open>type JSONUserFS struct\<close>, with the JSON keys \<^verbatim>\<open>id, login, password, user_id\<close>.\<close>

record JSONUserFS =
  js_ID :: "64 word"
  js_Login :: string
  js_Password :: string
  js_UserID :: string

abbreviation LF :: char where "LF \<equiv> CHR 0x0A"
abbreviation CR :: char where "CR \<equiv> CHR 0x0D"
abbreviation DQUOTE :: char where "DQUOTE \<equiv> CHR 0x22"
abbreviation BSLASH :: char where "BSLASH \<equiv> CHR 0x5C"

text \<open>\<^verbatim>\<open>strconv.AppendInt(dst, n, 10)\<close>: the decimal digits, with a minus sign.\<close>

definition digit :: "nat \<Rightarrow> char" where
  "digit d = ''0123456789'' ! d"

function decimal :: "nat \<Rightarrow> string" where
  "decimal n = (if n < 10 then [digit n] else decimal (n div 10) @ [digit (n mod 10)])"
  by pat_completeness auto
termination
  by (relation "measure id") auto

definition itoa :: "int \<Rightarrow> string" where
  "itoa i = (if i < 0 then CHR ''-'' # decimal (nat (- i)) else decimal (nat i))"

text \<open>
  \<^verbatim>\<open>utf8.DecodeRuneInString\<close>: the rune at the head of \<open>s\<close> and its width in bytes;
  \<open>(RuneError, 1)\<close> where the bytes are not a UTF-8 encoding. The tests on the first
  byte are the rows of the standard library's table \<^verbatim>\<open>first\<close>.
\<close>

definition RuneError :: nat where
  "RuneError = 0xFFFD"

fun DecodeRuneInString :: "bytes \<Rightarrow> nat \<times> nat" where
  "DecodeRuneInString [] = (RuneError, 0)"
| "DecodeRuneInString (s0 # s) =
     (let b0 = (of_char s0 :: nat) in
      if b0 < 0x80 then (b0, 1)
      else if b0 < 0xC2 \<or> 0xF4 < b0 then (RuneError, 1)
      else
        let sz = (if b0 < 0xE0 then 2 else if b0 < 0xF0 then 3 else 4 :: nat);
            lo = (if b0 = 0xE0 then 0xA0 else if b0 = 0xF0 then 0x90 else 0x80 :: nat);
            hi = (if b0 = 0xED then 0x9F else if b0 = 0xF4 then 0x8F else 0xBF :: nat)
        in
        if length (s0 # s) < sz then (RuneError, 1)
        else
          let b1 = (of_char (s ! 0) :: nat) in
          if b1 < lo \<or> hi < b1 then (RuneError, 1)
          else if sz \<le> 2 then ((b0 mod 32) * 64 + b1 mod 64, 2)
          else
            let b2 = (of_char (s ! 1) :: nat) in
            if b2 < 0x80 \<or> 0xBF < b2 then (RuneError, 1)
            else if sz \<le> 3 then ((b0 mod 16) * 4096 + (b1 mod 64) * 64 + b2 mod 64, 3)
            else
              let b3 = (of_char (s ! 2) :: nat) in
              if b3 < 0x80 \<or> 0xBF < b3 then (RuneError, 1)
              else ((b0 mod 8) * 262144 + (b1 mod 64) * 4096 + (b2 mod 64) * 64 + b3 mod 64, 4))"

text \<open>
  \<^verbatim>\<open>appendString(dst, src, escapeHTML = true)\<close> of \<^verbatim>\<open>encoding/json\<close>, which
  \<^verbatim>\<open>json.Marshal\<close> uses for a string field. \<open>htmlSafeSet\<close> holds the ASCII bytes that
  are copied as they are: the printable ones but the quote, the backslash and
  \<^verbatim>\<open><\<close>, \<^verbatim>\<open>>\<close>, \<^verbatim>\<open>&\<close>.
\<close>

definition hex :: "nat \<Rightarrow> char" where
  "hex n = ''0123456789abcdef'' ! n"

definition htmlSafeSet :: "char \<Rightarrow> bool" where
  "htmlSafeSet b =
     (0x20 \<le> (of_char b :: nat) \<and> (of_char b :: nat) < 0x80 \<and> b \<noteq> DQUOTE \<and> b \<noteq> BSLASH \<and>
      b \<noteq> CHR ''<'' \<and> b \<noteq> CHR ''>'' \<and> b \<noteq> CHR ''&'')"

definition escape_byte :: "char \<Rightarrow> bytes" where
  "escape_byte b =
     (if b = BSLASH \<or> b = DQUOTE then [BSLASH, b]
      else if b = CHR 0x08 then [BSLASH, CHR ''b'']
      else if b = CHR 0x0C then [BSLASH, CHR ''f'']
      else if b = LF then [BSLASH, CHR ''n'']
      else if b = CR then [BSLASH, CHR ''r'']
      else if b = CHR 0x09 then [BSLASH, CHR ''t'']
      else [BSLASH, CHR ''u'', CHR ''0'', CHR ''0'',
            hex ((of_char b :: nat) div 16), hex ((of_char b :: nat) mod 16)])"

function appendString_body :: "bytes \<Rightarrow> bytes" where
  "appendString_body [] = []"
| "appendString_body (b # src) =
     (if (of_char b :: nat) < 0x80 then
        (if htmlSafeSet b then [b] else escape_byte b) @ appendString_body src
      else
        (case DecodeRuneInString (b # src) of (c, width) \<Rightarrow>
           if c = RuneError \<and> width = 1 then
             BSLASH # ''ufffd'' @ appendString_body src
           else if c = 0x2028 \<or> c = 0x2029 then
             BSLASH # ''u202'' @ [hex (c mod 16)] @ appendString_body (drop (width - 1) src)
           else b # take (width - 1) src @ appendString_body (drop (width - 1) src)))"
  by pat_completeness auto
termination
  by (relation "measure length") auto

definition appendString :: "bytes \<Rightarrow> bytes" where
  "appendString src = DQUOTE # appendString_body src @ [DQUOTE]"

text \<open>
  \<^verbatim>\<open>json.Marshal(entry)\<close> for an entry of type \<^verbatim>\<open>JSONUserFS\<close>: one object, the fields
  in the order of the struct, no white space. Marshalling a struct of an \<^verbatim>\<open>int\<close> and
  three strings returns no error.
\<close>

definition json_key :: "string \<Rightarrow> bytes" where
  "json_key k = DQUOTE # k @ [DQUOTE, CHR '':'']"

definition json_Marshal :: "JSONUserFS \<Rightarrow> bytes" where
  "json_Marshal e =
     CHR ''{'' # json_key ''id'' @ itoa (sint (js_ID e)) @
     CHR '','' # json_key ''login'' @ appendString (js_Login e) @
     CHR '','' # json_key ''password'' @ appendString (js_Password e) @
     CHR '','' # json_key ''user_id'' @ appendString (js_UserID e) @ ''}''"

subsection \<open>\<^verbatim>\<open>encoding/json\<close>: unmarshalling into a \<^verbatim>\<open>JSONUserFS\<close>\<close>

text \<open>
  \<^verbatim>\<open>getu4\<close> of \<^verbatim>\<open>encoding/json\<close> reads the four hexadecimal digits of a
  \<^verbatim>\<open>\uXXXX\<close> escape, in either case; \<open>None\<close> is its result \<^verbatim>\<open>-1\<close>.
\<close>

definition hex_value :: "char \<Rightarrow> nat option" where
  "hex_value c =
     (let n = (of_char c :: nat) in
      if 0x30 \<le> n \<and> n \<le> 0x39 then Some (n - 0x30)
      else if 0x61 \<le> n \<and> n \<le> 0x66 then Some (n - 0x61 + 10)
      else if 0x41 \<le> n \<and> n \<le> 0x46 then Some (n - 0x41 + 10)
      else None)"

fun getu4 :: "bytes \<Rightarrow> nat option" where
  "getu4 (b0 # b1 # h1 # h2 # h3 # h4 # s) =
     (if b0 \<noteq> BSLASH \<or> b1 \<noteq> CHR ''u'' then None
      else
        (case (hex_value h1, hex_value h2, hex_value h3, hex_value h4) of
           (Some d1, Some d2, Some d3, Some d4) \<Rightarrow> Some (((d1 * 16 + d2) * 16 + d3) * 16 + d4)
         | _ \<Rightarrow> None))"
| "getu4 s = None"

text \<open>
  \<^verbatim>\<open>utf8.EncodeRune\<close>: the UTF-8 bytes of a rune; a surrogate half and a value beyond
  \<^verbatim>\<open>U+10FFFF\<close> are written as \<^verbatim>\<open>U+FFFD\<close>. \<^verbatim>\<open>utf16.DecodeRune\<close> joins a surrogate
  pair; \<open>None\<close> stands for a second half that \<^verbatim>\<open>getu4\<close> could not read.
\<close>

definition EncodeRune :: "nat \<Rightarrow> bytes" where
  "EncodeRune r =
     (if r < 0x80 then [char_of r]
      else if r < 0x800 then [char_of (0xC0 + r div 64), char_of (0x80 + r mod 64)]
      else if 0x10FFFF < r \<or> (0xD800 \<le> r \<and> r \<le> 0xDFFF) then
        [CHR 0xEF, CHR 0xBF, CHR 0xBD]
      else if r < 0x10000 then
        [char_of (0xE0 + r div 4096), char_of (0x80 + (r div 64) mod 64),
         char_of (0x80 + r mod 64)]
      else
        [char_of (0xF0 + r div 262144), char_of (0x80 + (r div 4096) mod 64),
         char_of (0x80 + (r div 64) mod 64), char_of (0x80 + r mod 64)])"

definition utf16_DecodeRune :: "nat \<Rightarrow> nat option \<Rightarrow> nat" where
  "utf16_DecodeRune r1 r2 =
     (case r2 of
        None \<Rightarrow> RuneError
      | Some r2' \<Rightarrow>
          if 0xD800 \<le> r1 \<and> r1 < 0xDC00 \<and> 0xDC00 \<le> r2' \<and> r2' < 0xE000
          then (r1 - 0xD800) * 1024 + (r2' - 0xDC00) + 0x10000
          else RuneError)"

text \<open>
  \<^verbatim>\<open>unquote\<close> of \<^verbatim>\<open>encoding/json\<close>, on the bytes after the opening quote of a string
  literal: the string the literal denotes and the bytes after its closing quote, or
  \<open>None\<close> for a literal that is not well formed. An escape is replaced by what it
  stands for, a control byte is refused, and bytes that are not UTF-8 are replaced by
  \<^verbatim>\<open>U+FFFD\<close>, one byte at a time.
\<close>

definition prepend :: "bytes \<Rightarrow> (bytes \<times> bytes) option \<Rightarrow> (bytes \<times> bytes) option" where
  "prepend t r = (case r of None \<Rightarrow> None | Some (u, rest) \<Rightarrow> Some (t @ u, rest))"

function unquote_body :: "bytes \<Rightarrow> (bytes \<times> bytes) option" where
  "unquote_body [] = None"
| "unquote_body (c # s) =
     (if c = DQUOTE then Some ([], s)
      else if c = BSLASH then
        (case s of
           [] \<Rightarrow> None
         | e # s' \<Rightarrow>
             if e = DQUOTE \<or> e = BSLASH \<or> e = CHR ''/'' then prepend [e] (unquote_body s')
             else if e = CHR ''b'' then prepend [CHR 0x08] (unquote_body s')
             else if e = CHR ''f'' then prepend [CHR 0x0C] (unquote_body s')
             else if e = CHR ''n'' then prepend [LF] (unquote_body s')
             else if e = CHR ''r'' then prepend [CR] (unquote_body s')
             else if e = CHR ''t'' then prepend [CHR 0x09] (unquote_body s')
             else if e = CHR ''u'' then
               (case getu4 (c # s) of
                  None \<Rightarrow> None
                | Some rr \<Rightarrow>
                    if 0xD800 \<le> rr \<and> rr < 0xE000 then
                      (let dec = utf16_DecodeRune rr (getu4 (drop 4 s')) in
                       if dec \<noteq> RuneError
                       then prepend (EncodeRune dec) (unquote_body (drop 10 s'))
                       else prepend (EncodeRune RuneError) (unquote_body (drop 4 s')))
                    else prepend (EncodeRune rr) (unquote_body (drop 4 s')))
             else None)
      else if (of_char c :: nat) < 0x20 then None
      else if (of_char c :: nat) < 0x80 then prepend [c] (unquote_body s)
      else
        (case DecodeRuneInString (c # s) of (rr, width) \<Rightarrow>
           prepend (EncodeRune rr) (unquote_body (drop (width - 1) s))))"
  by pat_completeness auto
termination
  by (relation "measure length") auto

text \<open>
  A JSON number for a field of type \<^verbatim>\<open>int\<close>: an optional minus sign and decimal digits
  without a leading zero, converted by \<^verbatim>\<open>strconv.ParseInt(s, 10, 64)\<close>, which refuses a
  value outside the 64 bits.
\<close>

definition strip_prefix :: "bytes \<Rightarrow> bytes \<Rightarrow> bytes option" where
  "strip_prefix p s = (if take (length p) s = p then Some (drop (length p) s) else None)"

definition is_digit :: "char \<Rightarrow> bool" where
  "is_digit c = (0x30 \<le> (of_char c :: nat) \<and> (of_char c :: nat) \<le> 0x39)"

definition parse_int :: "bytes \<Rightarrow> (int \<times> bytes) option" where
  "parse_int s =
     (let neg = (s \<noteq> [] \<and> hd s = CHR ''-'');
          s1 = (if neg then tl s else s);
          ds = takeWhile is_digit s1;
          rest = dropWhile is_digit s1;
          n = foldl (\<lambda>a c. 10 * a + (int (of_char c) - 0x30)) 0 ds;
          v = (if neg then - n else n)
      in if ds = [] then None
         else if hd ds = CHR ''0'' \<and> length ds > 1 then None
         else if v < - (2 ^ 63) \<or> 2 ^ 63 \<le> v then None
         else Some (v, rest))"

text \<open>
  \<^verbatim>\<open>json.Unmarshal(line, &user)\<close> for a \<^verbatim>\<open>user\<close> of type \<^verbatim>\<open>JSONUserFS\<close>. It
  is defined on an object in the layout in which \<^verbatim>\<open>json.Marshal\<close> writes one: the
  four keys in the order of the struct and no white space. The library reads other
  layouts of an object as well (white space, another order of the keys, keys it does
  not know); the service writes none of them, and here they are a syntax error like
  everything else that is not such an object.
\<close>

definition json_Unmarshal :: "bytes \<Rightarrow> error + JSONUserFS" where
  "json_Unmarshal data =
     (case strip_prefix (CHR ''{'' # json_key ''id'') data of
        None \<Rightarrow> Inl ErrJSON
      | Some s1 \<Rightarrow>
     (case parse_int s1 of
        None \<Rightarrow> Inl ErrJSON
      | Some (i, s2) \<Rightarrow>
     (case strip_prefix (CHR '','' # json_key ''login'' @ [DQUOTE]) s2 of
        None \<Rightarrow> Inl ErrJSON
      | Some s3 \<Rightarrow>
     (case unquote_body s3 of
        None \<Rightarrow> Inl ErrJSON
      | Some (login, s4) \<Rightarrow>
     (case strip_prefix (CHR '','' # json_key ''password'' @ [DQUOTE]) s4 of
        None \<Rightarrow> Inl ErrJSON
      | Some s5 \<Rightarrow>
     (case unquote_body s5 of
        None \<Rightarrow> Inl ErrJSON
      | Some (password, s6) \<Rightarrow>
     (case strip_prefix (CHR '','' # json_key ''user_id'' @ [DQUOTE]) s6 of
        None \<Rightarrow> Inl ErrJSON
      | Some s7 \<Rightarrow>
     (case unquote_body s7 of
        None \<Rightarrow> Inl ErrJSON
      | Some (userID, s8) \<Rightarrow>
          if s8 = ''}''
          then Inr \<lparr>js_ID = word_of_int i, js_Login = login, js_Password = password,
                    js_UserID = userID\<rparr>
          else Inl ErrJSON))))))))"

text \<open>
  \<^verbatim>\<open>utf8.ValidString\<close>: the bytes are the UTF-8 encodings of a sequence of runes, that
  is, decoding never meets a byte it has to replace.
\<close>

function ValidString :: "bytes \<Rightarrow> bool" where
  "ValidString [] = True"
| "ValidString (b # s) =
     (if (of_char b :: nat) < 0x80 then ValidString s
      else
        (case DecodeRuneInString (b # s) of (c, width) \<Rightarrow>
           if c = RuneError \<and> width = 1 then False else ValidString (drop (width - 1) s)))"
  by pat_completeness auto
termination
  by (relation "measure length") auto

subsection \<open>\<^verbatim>\<open>bufio.Scanner\<close> with the split function \<^verbatim>\<open>ScanLines\<close>\<close>

text \<open>
  One call of \<^verbatim>\<open>scanner.Scan()\<close> on the bytes not yet consumed: \<open>None\<close> at the end of
  the input, otherwise the next line without its line end (\<^verbatim>\<open>dropCR\<close> removes one
  trailing carriage return) and the bytes after it. The scanner's buffer grows up to
  \<^verbatim>\<open>bufio.MaxScanTokenSize\<close>; when it is full and holds no line end, \<^verbatim>\<open>Scan\<close> stops
  with \<^verbatim>\<open>bufio.ErrTooLong\<close>.
\<close>

definition MaxScanTokenSize :: nat where
  "MaxScanTokenSize = 64 * 1024"

definition dropCR :: "bytes \<Rightarrow> bytes" where
  "dropCR data = (if data \<noteq> [] \<and> last data = CR then butlast data else data)"

definition scanner_Scan :: "bytes \<Rightarrow> (error + bytes \<times> bytes) option" where
  "scanner_Scan data =
     (if data = [] then None
      else
        let line = takeWhile (\<lambda>c. c \<noteq> LF) data in
        if MaxScanTokenSize \<le> length line then Some (Inl ErrTooLong)
        else Some (Inr (dropCR line, drop (Suc (length line)) data)))"

subsection \<open>Opening, loading and appending\<close>

text \<open>
  The directory the process sees: a name is absent, a regular file with its bytes, or
  something \<^verbatim>\<open>os.OpenFile\<close> cannot open for reading and appending. With
  \<^verbatim>\<open>O_CREATE\<close> an absent name is opened as an empty file.
\<close>

datatype fs_node = RegularFile bytes | Unopenable

definition os_OpenFile :: "(string \<rightharpoonup> fs_node) \<Rightarrow> string \<Rightarrow> error + os_file" where
  "os_OpenFile disk name =
     (case disk name of
        None \<Rightarrow> Inr \<lparr>fcontent = [], fclosed = False\<rparr>
      | Some (RegularFile c) \<Rightarrow> Inr \<lparr>fcontent = c, fclosed = False\<rparr>
      | Some Unopenable \<Rightarrow> Inl ErrOpen)"

text \<open>
  The two composite literals that copy the four fields: \<^verbatim>\<open>&User{...}\<close> in
  \<^verbatim>\<open>loadUsersFromFile\<close> and \<^verbatim>\<open>JSONUserFS{...}\<close> in \<^verbatim>\<open>CreateUser\<close>.
\<close>

definition User_of :: "JSONUserFS \<Rightarrow> User" where
  "User_of user =
     \<lparr>ID = js_ID user, Login = js_Login user, Password = js_Password user,
      UserID = js_UserID user\<rparr>"

definition JSONUserFS_of :: "User \<Rightarrow> JSONUserFS" where
  "JSONUserFS_of user =
     \<lparr>js_ID = ID user, js_Login = Login user, js_Password = Password user,
      js_UserID = UserID user\<rparr>"

text \<open>
  The loop of \<^verbatim>\<open>loadUsersFromFile\<close>: scan a line, unmarshal it, store the user under its
  login. The decoder is an argument \<open>unm\<close> of the loop, for which
  \<^verbatim>\<open>loadUsersFromFile\<close> passes \<open>json_Unmarshal\<close>. The loop returns at the first
  error, with the users it has stored so far. Each round consumes at least one byte,
  which is why the loop ends.
\<close>

lemma scanner_Scan_shorter:
  "scanner_Scan data = Some (Inr (tok, rest)) \<Longrightarrow> length rest < length data"
  by (auto simp: scanner_Scan_def Let_def split: if_splits)

function scan_loop ::
  "(bytes \<Rightarrow> error + JSONUserFS) \<Rightarrow> bytes \<Rightarrow> (string \<rightharpoonup> User) \<Rightarrow> (string \<rightharpoonup> User) \<times> error option" where
  "scan_loop unm data us =
     (case scanner_Scan data of
        None \<Rightarrow> (us, None)
      | Some (Inl e) \<Rightarrow> (us, Some e)
      | Some (Inr (tok, rest)) \<Rightarrow>
          (case unm tok of
             Inl e \<Rightarrow> (us, Some e)
           | Inr user \<Rightarrow>
               scan_loop unm rest (us(js_Login user \<mapsto> User_of user))))"
  by pat_completeness auto
termination
  by (relation "measure (\<lambda>(unm, data, us). length data)")
     (auto dest: scanner_Scan_shorter)

definition loadUsersFromFile :: "FileStorage \<Rightarrow> FileStorage \<times> error option" where
  "loadUsersFromFile f =
     (case usersFile f of
        None \<Rightarrow> (f, Some ErrInvalid)
      | Some h \<Rightarrow>
          if fclosed h then (f, Some ErrClosed)
          else
            (case scan_loop json_Unmarshal (fcontent h) (users f) of
               (us, err) \<Rightarrow> (f\<lparr>users := us\<rparr>, err)))"

definition NewFileStorage :: "(string \<rightharpoonup> fs_node) \<Rightarrow> string \<Rightarrow> error + FileStorage" where
  "NewFileStorage disk FileStoragePath =
     (if FileStoragePath = [] then Inl ErrNoPath
      else
        (case os_OpenFile disk (FileStoragePath @ ''.users'') of
           Inl e \<Rightarrow> Inl ErrOpen
         | Inr h \<Rightarrow>
             (case loadUsersFromFile
                     \<lparr>usersFile = Some h, users = Map.empty, profiles = Map.empty,
                      refresh = Map.empty\<rparr> of
                (fs, Some e) \<Rightarrow> Inl (ErrLoad e)
              | (fs, None) \<Rightarrow> Inr fs)))"

definition CloseStorage :: "FileStorage \<Rightarrow> FileStorage \<times> error option" where
  "CloseStorage f =
     (case usersFile f of
        Some h \<Rightarrow>
          if fclosed h then (f, Some ErrClosed)
          else (f\<lparr>usersFile := Some (h\<lparr>fclosed := True\<rparr>)\<rparr>, None)
      | None \<Rightarrow> (f, None))"

definition GetUserByLogin :: "FileStorage \<Rightarrow> string \<Rightarrow> error + User" where
  "GetUserByLogin f login =
     (case users f login of
        Some user \<Rightarrow> Inr user
      | None \<Rightarrow> Inl (ErrUserNotFound login))"

text \<open>
  What reaches the file when \<^verbatim>\<open>CreateUser\<close> writes \<open>data\<close> through a
  \<^verbatim>\<open>bufio.Writer\<close> (\<^verbatim>\<open>Write\<close>, \<^verbatim>\<open>WriteByte\<close>, \<^verbatim>\<open>Flush\<close>): on a closed handle
  nothing, and the first write reports \<^verbatim>\<open>os.ErrClosed\<close>; otherwise all of it, or, when
  the operating system fails a write, the first \<open>n\<close> bytes. The three calls return the
  error alike, so one outcome stands for them.
\<close>

datatype write_fault = NoFault | FailAfter nat

definition file_Write :: "write_fault \<Rightarrow> os_file \<Rightarrow> bytes \<Rightarrow> os_file \<times> error option" where
  "file_Write io h data =
     (if fclosed h then (h, Some ErrClosed)
      else
        (case io of
           NoFault \<Rightarrow> (h\<lparr>fcontent := fcontent h @ data\<rparr>, None)
         | FailAfter n \<Rightarrow> (h\<lparr>fcontent := fcontent h @ take n data\<rparr>, Some ErrShortWrite)))"

definition CreateUser :: "write_fault \<Rightarrow> FileStorage \<Rightarrow> User \<Rightarrow> FileStorage \<times> error option" where
  "CreateUser io f user =
     (if users f (Login user) \<noteq> None then (f, Some (ErrUserExists (Login user)))
      else
        let f1 = f\<lparr>users := (users f)(Login user \<mapsto> user)\<rparr> in
        (case usersFile f1 of
           None \<Rightarrow> (f1, Some ErrFileNotOpened)
         | Some h \<Rightarrow>
             let entry = JSONUserFS_of user;
                 data = json_Marshal entry
             in (case file_Write io h (data @ [LF]) of
                   (h', err) \<Rightarrow> (f1\<lparr>usersFile := Some h'\<rparr>, err))))"

section \<open>The PostgreSQL realization: refresh tokens\<close>

text \<open>
  The table \<^verbatim>\<open>refresh_tokens (token TEXT PRIMARY KEY, user_id, expires_at, revoked BOOLEAN
  NOT NULL DEFAULT FALSE)\<close> as a partial function from the key to the row. The statements
  on refresh tokens touch no other table.

  Each method runs one statement through the pool. \<open>fault\<close> says that the driver
  reported an error of its own for this call (a lost connection, a cancelled context, a
  value the column rejects); the statement then has no effect.
\<close>

record refresh_row =
  col_user_id :: string
  col_expires_at :: time
  col_revoked :: bool

record DB =
  refresh_tokens :: "string \<rightharpoonup> refresh_row"

text \<open>\<^verbatim>\<open>INSERT INTO refresh_tokens (token, user_id, expires_at) VALUES ($1, $2, $3)\<close>\<close>

definition DB_CreateRefreshToken ::
  "bool \<Rightarrow> DB \<Rightarrow> string \<Rightarrow> string \<Rightarrow> time \<Rightarrow> DB \<times> error option" where
  "DB_CreateRefreshToken fault d token userID expiresAt =
     (if fault then (d, Some (ErrDatabase DriverFailure))
      else if refresh_tokens d token \<noteq> None then (d, Some (ErrDatabase UniqueViolation))
      else
        (d\<lparr>refresh_tokens := (refresh_tokens d)(token \<mapsto>
             \<lparr>col_user_id = userID, col_expires_at = expiresAt, col_revoked = False\<rparr>)\<rparr>, None))"

text \<open>\<^verbatim>\<open>SELECT user_id, expires_at, revoked FROM refresh_tokens WHERE token = $1\<close>\<close>

definition DB_GetRefreshToken :: "bool \<Rightarrow> DB \<Rightarrow> string \<Rightarrow> error + (string \<times> time \<times> bool)" where
  "DB_GetRefreshToken fault d token =
     (if fault then Inl (ErrDatabase DriverFailure)
      else
        (case refresh_tokens d token of
           None \<Rightarrow> Inl ErrTokenNotFound
         | Some r \<Rightarrow> Inr (col_user_id r, col_expires_at r, col_revoked r)))"

text \<open>
  \<^verbatim>\<open>UPDATE refresh_tokens SET revoked = TRUE WHERE token = $1\<close>. The method looks at the
  error of \<^verbatim>\<open>Exec\<close> only, not at the number of rows the statement changed.
\<close>

definition DB_RevokeRefreshToken :: "bool \<Rightarrow> DB \<Rightarrow> string \<Rightarrow> DB \<times> error option" where
  "DB_RevokeRefreshToken fault d token =
     (if fault then (d, Some (ErrDatabase DriverFailure))
      else
        (case refresh_tokens d token of
           None \<Rightarrow> (d, None)
         | Some r \<Rightarrow>
             (d\<lparr>refresh_tokens := (refresh_tokens d)(token \<mapsto> r\<lparr>col_revoked := True\<rparr>)\<rparr>, None)))"

text \<open>
  \<^verbatim>\<open>DELETE FROM refresh_tokens WHERE expires_at < NOW()\<close>; \<open>now\<close> is the time of the
  database server.
\<close>

definition DB_DeleteExpiredRefreshTokens :: "bool \<Rightarrow> time \<Rightarrow> DB \<Rightarrow> DB \<times> error option" where
  "DB_DeleteExpiredRefreshTokens fault now d =
     (if fault then (d, Some (ErrDatabase DriverFailure))
      else
        (d\<lparr>refresh_tokens :=
             (\<lambda>k. case refresh_tokens d k of
                    None \<Rightarrow> None
                  | Some r \<Rightarrow> if col_expires_at r < now then None else Some r)\<rparr>, None))"

section \<open>The interface \<^verbatim>\<open>Storage\<close>\<close>

text \<open>
  \<^verbatim>\<open>NewStorage\<close> returns one of the two realizations behind the interface; a call of an
  interface method goes to the method of the realization. The file realization has no
  driver, so \<open>fault\<close> means nothing to it.
\<close>

datatype Storage = File FileStorage | Postgres DB

fun Storage_CreateRefreshToken ::
  "bool \<Rightarrow> Storage \<Rightarrow> string \<Rightarrow> string \<Rightarrow> time \<Rightarrow> Storage \<times> error option" where
  "Storage_CreateRefreshToken fault (File f) token userID expiresAt =
     (case CreateRefreshToken f token userID expiresAt of (f', err) \<Rightarrow> (File f', err))"
| "Storage_CreateRefreshToken fault (Postgres d) token userID expiresAt =
     (case DB_CreateRefreshToken fault d token userID expiresAt of (d', err) \<Rightarrow> (Postgres d', err))"

fun Storage_GetRefreshToken :: "bool \<Rightarrow> Storage \<Rightarrow> string \<Rightarrow> error + (string \<times> time \<times> bool)" where
  "Storage_GetRefreshToken fault (File f) token = GetRefreshToken f token"
| "Storage_GetRefreshToken fault (Postgres d) token = DB_GetRefreshToken fault d token"

fun Storage_RevokeRefreshToken :: "bool \<Rightarrow> Storage \<Rightarrow> string \<Rightarrow> Storage \<times> error option" where
  "Storage_RevokeRefreshToken fault (File f) token =
     (case RevokeRefreshToken f token of (f', err) \<Rightarrow> (File f', err))"
| "Storage_RevokeRefreshToken fault (Postgres d) token =
     (case DB_RevokeRefreshToken fault d token of (d', err) \<Rightarrow> (Postgres d', err))"

text \<open>
  The sweep takes the clock reading and, for the file realization, the order of the
  \<^verbatim>\<open>range\<close> loop.
\<close>

fun Storage_DeleteExpiredRefreshTokens ::
  "bool \<Rightarrow> time \<Rightarrow> string list \<Rightarrow> Storage \<Rightarrow> Storage \<times> error option" where
  "Storage_DeleteExpiredRefreshTokens fault now order (File f) =
     (case DeleteExpiredRefreshTokens now order f of (f', err) \<Rightarrow> (File f', err))"
| "Storage_DeleteExpiredRefreshTokens fault now order (Postgres d) =
     (case DB_DeleteExpiredRefreshTokens fault now d of (d', err) \<Rightarrow> (Postgres d', err))"

text \<open>
  A sequence of calls on the refresh tokens of a store, each with the outcome of the
  driver for that call.
\<close>

datatype storage_op =
  OpCreate string string time
| OpRevoke string
| OpGet string
| OpDeleteExpired time "string list"

fun apply_op :: "bool \<times> storage_op \<Rightarrow> Storage \<Rightarrow> Storage" where
  "apply_op (fault, OpCreate token userID expiresAt) s =
     fst (Storage_CreateRefreshToken fault s token userID expiresAt)"
| "apply_op (fault, OpRevoke token) s = fst (Storage_RevokeRefreshToken fault s token)"
| "apply_op (fault, OpGet token) s = s"
| "apply_op (fault, OpDeleteExpired now order) s =
     fst (Storage_DeleteExpiredRefreshTokens fault now order s)"

definition run_ops :: "(bool \<times> storage_op) list \<Rightarrow> Storage \<Rightarrow> Storage" where
  "run_ops ops s = fold apply_op ops s"

fun creates :: "bool \<times> storage_op \<Rightarrow> string \<Rightarrow> bool" where
  "creates (fault, OpCreate token userID expiresAt) t = (token = t)"
| "creates (fault, other) t = False"

text \<open>
  The error a call of the sequence returns. A sequence of calls creates no \<open>t\<close> when
  each of its calls of \<^verbatim>\<open>CreateRefreshToken\<close> with the token \<open>t\<close> returns an error.
\<close>

fun op_error :: "bool \<times> storage_op \<Rightarrow> Storage \<Rightarrow> error option" where
  "op_error (fault, OpCreate token userID expiresAt) s =
     snd (Storage_CreateRefreshToken fault s token userID expiresAt)"
| "op_error (fault, OpRevoke token) s = snd (Storage_RevokeRefreshToken fault s token)"
| "op_error (fault, OpGet token) s =
     (case Storage_GetRefreshToken fault s token of Inl err \<Rightarrow> Some err | Inr row \<Rightarrow> None)"
| "op_error (fault, OpDeleteExpired now order) s =
     snd (Storage_DeleteExpiredRefreshTokens fault now order s)"

fun creates_refused :: "string \<Rightarrow> (bool \<times> storage_op) list \<Rightarrow> Storage \<Rightarrow> bool" where
  "creates_refused t [] s = True"
| "creates_refused t (op # ops) s =
     ((creates op t \<longrightarrow> op_error op s \<noteq> None) \<and> creates_refused t ops (apply_op op s))"

section \<open>The refresh and logout endpoints\<close>

text \<open>
  A request as the two handlers read it: the method, and the field
  \<^verbatim>\<open>refresh_token\<close> of the decoded body (\<open>None\<close> when \<^verbatim>\<open>Decode\<close> returned an error; a
  body without the field decodes to the empty string).
\<close>

record request =
  Method :: string
  RefreshToken :: "string option"

datatype response =
  StatusMethodNotAllowed                 \<comment> \<open>405\<close>
| StatusBadRequest                       \<comment> \<open>400, \<^verbatim>\<open>Invalid request\<close>\<close>
| StatusUnauthorized                     \<comment> \<open>401, \<^verbatim>\<open>Invalid refresh token\<close>\<close>
| StatusInternalServerError              \<comment> \<open>500, \<^verbatim>\<open>Failed to generate token\<close>\<close>
| StatusOK string string                 \<comment> \<open>200 with \<^verbatim>\<open>token\<close> and \<^verbatim>\<open>refresh_token\<close>\<close>
| StatusNoContent                        \<comment> \<open>204\<close>

text \<open>
  What one run of the refresh handler takes from outside: the outcome of the driver for
  each of its three storage calls, the two readings of \<^verbatim>\<open>time.Now()\<close>, and the string of
  \<^verbatim>\<open>uuid.New()\<close>.
\<close>

record refresh_env =
  get_fault :: bool
  revoke_fault :: bool
  create_fault :: bool
  now_check :: time
  now_issue :: time
  newRT :: string

text \<open>
  The handler of \<^verbatim>\<open>/api/auth/token/refresh\<close> in \<^verbatim>\<open>run\<close>. \<open>GenerateToken\<close> is
  \<^verbatim>\<open>middleware.GenerateToken\<close> and \<open>refreshTTL\<close> the configured lifetime. The errors
  of \<^verbatim>\<open>RevokeRefreshToken\<close> and of \<^verbatim>\<open>CreateRefreshToken\<close> are assigned to \<^verbatim>\<open>_\<close>.
\<close>

definition refresh_handler ::
  "(string \<Rightarrow> error + string) \<Rightarrow> time \<Rightarrow> refresh_env \<Rightarrow> Storage \<Rightarrow> request \<Rightarrow> Storage \<times> response" where
  "refresh_handler GenerateToken refreshTTL env store r =
     (if Method r \<noteq> ''POST'' then (store, StatusMethodNotAllowed)
      else
        (case RefreshToken r of
           None \<Rightarrow> (store, StatusBadRequest)
         | Some rt \<Rightarrow>
             if rt = [] then (store, StatusBadRequest)
             else
               (case Storage_GetRefreshToken (get_fault env) store rt of
                  Inl err \<Rightarrow> (store, StatusUnauthorized)
                | Inr (userID, expiresAt, revoked) \<Rightarrow>
                    if revoked \<or> expiresAt < now_check env then (store, StatusUnauthorized)
                    else
                      let store1 = fst (Storage_RevokeRefreshToken (revoke_fault env) store rt);
                          store2 = fst (Storage_CreateRefreshToken (create_fault env) store1
                                          (newRT env) userID (now_issue env + refreshTTL))
                      in (case GenerateToken userID of
                            Inl err \<Rightarrow> (store2, StatusInternalServerError)
                          | Inr token \<Rightarrow> (store2, StatusOK token (newRT env))))))"

text \<open>The handler of \<^verbatim>\<open>/api/auth/logout\<close> in \<^verbatim>\<open>run\<close>.\<close>

definition logout_handler :: "bool \<Rightarrow> Storage \<Rightarrow> request \<Rightarrow> Storage \<times> response" where
  "logout_handler fault store r =
     (if Method r \<noteq> ''POST'' then (store, StatusMethodNotAllowed)
      else
        (case RefreshToken r of
           None \<Rightarrow> (store, StatusBadRequest)
         | Some rt \<Rightarrow>
             if rt = [] then (store, StatusBadRequest)
             else (fst (Storage_RevokeRefreshToken fault store rt), StatusNoContent)))"

text \<open>
  A refresh token is active in a store at a time when the validity check of the refresh
  handler lets it pass: it is stored, not revoked, and the time is not after its expiry.
\<close>

definition active :: "Storage \<Rightarrow> time \<Rightarrow> string \<Rightarrow> bool" where
  "active store now token =
     (case Storage_GetRefreshToken False store token of
        Inl err \<Rightarrow> False
      | Inr (userID, expiresAt, revoked) \<Rightarrow> \<not> revoked \<and> \<not> expiresAt < now)"

section \<open>Scenarios\<close>

text \<open>
  Registering users one after the other, each call of \<^verbatim>\<open>CreateUser\<close> returning nil, and
  starting the service again over the users file the store has written.
\<close>

fun register_users :: "FileStorage \<Rightarrow> User list \<Rightarrow> error + FileStorage" where
  "register_users f [] = Inr f"
| "register_users f (user # rest) =
     (case CreateUser NoFault f user of
        (f', None) \<Rightarrow> register_users f' rest
      | (f', Some e) \<Rightarrow> Inl e)"

definition users_file_bytes :: "FileStorage \<Rightarrow> bytes" where
  "users_file_bytes f = (case usersFile f of None \<Rightarrow> [] | Some h \<Rightarrow> fcontent h)"

definition restart ::
  "(string \<rightharpoonup> fs_node) \<Rightarrow> string \<Rightarrow> FileStorage \<Rightarrow> error + FileStorage" where
  "restart disk path f =
     NewFileStorage (disk(path @ ''.users'' \<mapsto> RegularFile (users_file_bytes f))) path"

definition ends_with_newline :: "bytes \<Rightarrow> bool" where
  "ends_with_newline data = (data = [] \<or> last data = LF)"

definition user_lines :: "User list \<Rightarrow> bytes" where
  "user_lines us = concat (map (\<lambda>u. json_Marshal (JSONUserFS_of u) @ [LF]) us)"

definition store_all :: "User list \<Rightarrow> (string \<rightharpoonup> User) \<Rightarrow> (string \<rightharpoonup> User)" where
  "store_all us m = fold (\<lambda>u m. m(Login u \<mapsto> u)) us m"

text \<open>The concrete stores, users, requests and environments of the examples below.\<close>

definition fresh_store :: FileStorage where
  "fresh_store =
     \<lparr>usersFile = Some \<lparr>fcontent = [], fclosed = False\<rparr>, users = Map.empty,
      profiles = Map.empty, refresh = Map.empty\<rparr>"

definition file_store :: "(string \<rightharpoonup> refresh_entry) \<Rightarrow> Storage" where
  "file_store m = File (fresh_store\<lparr>refresh := m\<rparr>)"

definition pg_store :: "(string \<rightharpoonup> refresh_row) \<Rightarrow> Storage" where
  "pg_store m = Postgres \<lparr>refresh_tokens = m\<rparr>"

definition alice :: User where
  "alice = \<lparr>ID = 7, Login = ''alice'', Password = ''$2a$hash'', UserID = ''S-1''\<rparr>"

definition long_user :: User where
  "long_user =
     \<lparr>ID = 1, Login = replicate MaxScanTokenSize (CHR ''a''), Password = ''pw'', UserID = ''S''\<rparr>"

definition bob :: User where
  "bob = \<lparr>ID = 8, Login = ''bob'', Password = ''$2a$hsah'', UserID = ''S-3''\<rparr>"

definition raw_user :: User where
  "raw_user = \<lparr>ID = 2, Login = [CHR 0xFF], Password = ''pw'', UserID = ''S-2''\<rparr>"

definition signer :: "string \<Rightarrow> error + string" where
  "signer userID = Inr (''jwt.'' @ userID)"

definition no_signer :: "string \<Rightarrow> error + string" where
  "no_signer userID = Inl ErrSign"

definition post :: "string \<Rightarrow> request" where
  "post rt = \<lparr>Method = ''POST'', RefreshToken = Some rt\<rparr>"

definition calm :: "time \<Rightarrow> string \<Rightarrow> refresh_env" where
  "calm now new =
     \<lparr>get_fault = False, revoke_fault = False, create_fault = False,
      now_check = now, now_issue = now, newRT = new\<rparr>"

definition two_tokens :: FileStorage where
  "two_tokens =
     fresh_store\<lparr>refresh :=
       [''a'' \<mapsto> \<lparr>TokUserID = ''S'', ExpiresAt = 5, Revoked = False\<rparr>,
        ''b'' \<mapsto> \<lparr>TokUserID = ''S'', ExpiresAt = 20, Revoked = True\<rparr>]\<rparr>"

declare decimal.simps [simp del]
declare appendString_body.simps [simp del]
declare DecodeRuneInString.simps [simp del]
declare scan_loop.simps [simp del]
declare unquote_body.simps [simp del]
declare ValidString.simps [simp del]

section \<open>Profiles in the file realization\<close>

text \<open>
  \<^verbatim>\<open>SetUserProfile\<close> never fails and is an upsert: the email read back is the one set
  last, and the profiles of other users are as before.
\<close>

lemma SetUserProfile_GetUserProfile:
  "snd (SetUserProfile f userID email) = None \<and>
   GetUserProfile (fst (SetUserProfile f userID email)) userID = Inr email"
  by (simp add: SetUserProfile_def GetUserProfile_def)

lemma SetUserProfile_other:
  "other \<noteq> userID \<Longrightarrow>
   GetUserProfile (fst (SetUserProfile f userID email)) other = GetUserProfile f other"
  by (simp add: SetUserProfile_def GetUserProfile_def)

lemma SetUserProfile_overwrites:
  "fst (SetUserProfile (fst (SetUserProfile f userID email)) userID email') =
   fst (SetUserProfile f userID email')"
  by (simp add: SetUserProfile_def)

section \<open>Refresh tokens in the two realizations\<close>

subsection \<open>The expiry sweep of the file realization\<close>

lemma sweep_step_other: "k' \<noteq> k \<Longrightarrow> sweep_step now k m k' = m k'"
  by (simp add: sweep_step_def split: option.splits)

lemma sweep_step_self:
  "sweep_step now k m k =
     (case m k of None \<Rightarrow> None | Some v \<Rightarrow> if ExpiresAt v < now then None else Some v)"
  by (simp add: sweep_step_def split: option.splits)

lemma fold_sweep_pointwise:
  "fold (sweep_step now) ks m k =
     (if k \<in> set ks
      then (case m k of None \<Rightarrow> None | Some v \<Rightarrow> if ExpiresAt v < now then None else Some v)
      else m k)"
proof (induction ks arbitrary: m)
  case Nil
  show ?case by simp
next
  case (Cons a ks)
  show ?case
  proof (cases "a = k")
    case True
    then show ?thesis
      by (simp add: Cons.IH sweep_step_self split: option.splits)
  next
    case False
    then show ?thesis
      by (simp add: Cons.IH sweep_step_other)
  qed
qed

text \<open>
  Claim C8. On the file realization \<^verbatim>\<open>DeleteExpiredRefreshTokens\<close> returns no error and
  changes nothing but the token map, from which it removes exactly the tokens whose
  \<open>ExpiresAt\<close> lies before \<open>now\<close>; every other token keeps its record. A second sweep
  at the same \<open>now\<close> returns the store of the first unchanged. \<open>order\<close> and
  \<open>order'\<close> are the orders in which the two loops visit the keys of the map.
\<close>

theorem DeleteExpiredRefreshTokens_exact_idempotent:
  assumes ord: "set order = dom (refresh f)"
    and ord': "set order' = dom (refresh (fst (DeleteExpiredRefreshTokens now order f)))"
  shows "DeleteExpiredRefreshTokens now order f =
           (f\<lparr>refresh := (\<lambda>t. case refresh f t of
                                 None \<Rightarrow> None
                               | Some v \<Rightarrow> if ExpiresAt v < now then None else Some v)\<rparr>,
            None) \<and>
         DeleteExpiredRefreshTokens now order' (fst (DeleteExpiredRefreshTokens now order f)) =
           (fst (DeleteExpiredRefreshTokens now order f), None)"
proof -
  let ?keep = "\<lambda>t. case refresh f t of
                      None \<Rightarrow> None
                    | Some v \<Rightarrow> if ExpiresAt v < now then None else Some v"
  have first: "fold (sweep_step now) order (refresh f) = ?keep"
  proof
    fix t
    show "fold (sweep_step now) order (refresh f) t = ?keep t"
      using ord by (cases "refresh f t") (auto simp: fold_sweep_pointwise)
  qed
  have second: "fold (sweep_step now) order' ?keep = ?keep"
  proof
    fix t
    show "fold (sweep_step now) order' ?keep t = ?keep t"
      by (cases "refresh f t") (auto simp: fold_sweep_pointwise)
  qed
  show ?thesis
    by (simp add: DeleteExpiredRefreshTokens_def first second)
qed

theorem DeleteExpiredRefreshTokens_exact_idempotent_witness:
  "set [''a'', ''b''] = dom (refresh two_tokens) \<and>
   set [''b''] = dom (refresh (fst (DeleteExpiredRefreshTokens 10 [''a'', ''b''] two_tokens))) \<and>
   snd (DeleteExpiredRefreshTokens 10 [''a'', ''b''] two_tokens) = None \<and>
   GetRefreshToken (fst (DeleteExpiredRefreshTokens 10 [''a'', ''b''] two_tokens)) ''a'' =
     Inl ErrTokenNotFound \<and>
   GetRefreshToken (fst (DeleteExpiredRefreshTokens 10 [''a'', ''b''] two_tokens)) ''b'' =
     Inr (''S'', 20, True) \<and>
   DeleteExpiredRefreshTokens 10 [''b'']
       (fst (DeleteExpiredRefreshTokens 10 [''a'', ''b''] two_tokens)) =
     (fst (DeleteExpiredRefreshTokens 10 [''a'', ''b''] two_tokens), None)"
proof -
  have h1: "set [''a'', ''b''] = dom (refresh two_tokens)"
    by (auto simp: two_tokens_def)
  have h2: "set [''b''] =
      dom (refresh (fst (DeleteExpiredRefreshTokens 10 [''a'', ''b''] two_tokens)))"
    by (auto simp: two_tokens_def DeleteExpiredRefreshTokens_def sweep_step_def)
  note inst = DeleteExpiredRefreshTokens_exact_idempotent[OF h1 h2]
  from inst have eq: "DeleteExpiredRefreshTokens 10 [''a'', ''b''] two_tokens =
      (two_tokens\<lparr>refresh := (\<lambda>t. case refresh two_tokens t of
                                     None \<Rightarrow> None
                                   | Some v \<Rightarrow> if ExpiresAt v < 10 then None else Some v)\<rparr>,
       None)"
    by blast
  have got: "snd (DeleteExpiredRefreshTokens 10 [''a'', ''b''] two_tokens) = None"
    "GetRefreshToken (fst (DeleteExpiredRefreshTokens 10 [''a'', ''b''] two_tokens)) ''a'' =
       Inl ErrTokenNotFound"
    "GetRefreshToken (fst (DeleteExpiredRefreshTokens 10 [''a'', ''b''] two_tokens)) ''b'' =
       Inr (''S'', 20, True)"
    unfolding eq by (simp_all add: GetRefreshToken_def two_tokens_def)
  from inst h1 h2 got show ?thesis by blast
qed

subsection \<open>Revoking\<close>

text \<open>
  What \<^verbatim>\<open>RevokeRefreshToken\<close> does in the file realization: it sets the flag of a stored
  token, reports a token it does not hold, and leaves a revoked token as it is.
\<close>

lemma RevokeRefreshToken_stored:
  "refresh f token = Some r \<Longrightarrow>
   RevokeRefreshToken f token =
     (f\<lparr>refresh := (refresh f)(token \<mapsto> r\<lparr>Revoked := True\<rparr>)\<rparr>, None)"
  by (simp add: RevokeRefreshToken_def)

lemma RevokeRefreshToken_unknown:
  "refresh f token = None \<Longrightarrow> RevokeRefreshToken f token = (f, Some ErrTokenNotFound)"
  by (simp add: RevokeRefreshToken_def)

lemma RevokeRefreshToken_again:
  "refresh f token = Some r \<Longrightarrow> Revoked r \<Longrightarrow> RevokeRefreshToken f token = (f, None)"
proof -
  assume r: "refresh f token = Some r" and rv: "Revoked r"
  from rv have "r\<lparr>Revoked := True\<rparr> = r" by simp
  with r have "(refresh f)(token \<mapsto> r\<lparr>Revoked := True\<rparr>) = refresh f"
    by (simp add: fun_upd_idem)
  with r show ?thesis
    by (simp add: RevokeRefreshToken_def)
qed

text \<open>The same for the PostgreSQL realization, but for the token the table does not hold.\<close>

lemma DB_RevokeRefreshToken_stored:
  "refresh_tokens d token = Some r \<Longrightarrow>
   DB_RevokeRefreshToken False d token =
     (d\<lparr>refresh_tokens := (refresh_tokens d)(token \<mapsto> r\<lparr>col_revoked := True\<rparr>)\<rparr>, None)"
  by (simp add: DB_RevokeRefreshToken_def)

lemma DB_RevokeRefreshToken_again:
  "refresh_tokens d token = Some r \<Longrightarrow> col_revoked r \<Longrightarrow>
   DB_RevokeRefreshToken False d token = (d, None)"
proof -
  assume r: "refresh_tokens d token = Some r" and rv: "col_revoked r"
  from rv have "r\<lparr>col_revoked := True\<rparr> = r" by simp
  with r have "(refresh_tokens d)(token \<mapsto> r\<lparr>col_revoked := True\<rparr>) = refresh_tokens d"
    by (simp add: fun_upd_idem)
  with r show ?thesis
    by (simp add: DB_RevokeRefreshToken_def)
qed

lemma DB_RevokeRefreshToken_unknown:
  "refresh_tokens d token = None \<Longrightarrow> DB_RevokeRefreshToken False d token = (d, None)"
  by (simp add: DB_RevokeRefreshToken_def)

text \<open>
  Claim C5. Revoking a token the store does not hold: the file realization returns
  \<^verbatim>\<open>refresh token not found\<close>, the PostgreSQL realization returns nil, since its
  \<^verbatim>\<open>UPDATE\<close> changes no row and raises no error. The two realizations differ here.
\<close>

theorem RevokeRefreshToken_unknown_token_differs:
  "RevokeRefreshToken fresh_store ''unknown'' = (fresh_store, Some ErrTokenNotFound) \<and>
   DB_RevokeRefreshToken False \<lparr>refresh_tokens = Map.empty\<rparr> ''unknown'' =
     (\<lparr>refresh_tokens = Map.empty\<rparr>, None)"
  by (simp add: RevokeRefreshToken_def DB_RevokeRefreshToken_def fresh_store_def)

subsection \<open>Creating\<close>

text \<open>
  The PostgreSQL realization refuses a token that is already a key of the table and
  leaves the table as it is.
\<close>

lemma DB_CreateRefreshToken_collision:
  "refresh_tokens d token \<noteq> None \<Longrightarrow>
   DB_CreateRefreshToken fault d token userID expiresAt =
     (d, Some (ErrDatabase (if fault then DriverFailure else UniqueViolation)))"
  by (simp add: DB_CreateRefreshToken_def)

text \<open>The file realization stores whatever it is given, under a key that is taken or not.\<close>

lemma CreateRefreshToken_always_stores:
  "snd (CreateRefreshToken f token userID expiresAt) = None \<and>
   GetRefreshToken (fst (CreateRefreshToken f token userID expiresAt)) token =
     Inr (userID, expiresAt, False)"
  by (simp add: CreateRefreshToken_def GetRefreshToken_def)

text \<open>
  Claim C3. Creating a token that is already stored: the PostgreSQL realization returns
  an error and keeps the row; the file realization returns nil and replaces the record,
  here a revoked token of \<open>alice\<close> by a token of \<open>bob\<close> that is not revoked.
\<close>

theorem CreateRefreshToken_overwrites_stored_token:
  "CreateRefreshToken
     (fresh_store\<lparr>refresh := [''t'' \<mapsto> \<lparr>TokUserID = ''alice'', ExpiresAt = 5, Revoked = True\<rparr>]\<rparr>)
     ''t'' ''bob'' 9 =
     (fresh_store\<lparr>refresh := [''t'' \<mapsto> \<lparr>TokUserID = ''bob'', ExpiresAt = 9, Revoked = False\<rparr>]\<rparr>,
      None) \<and>
   DB_CreateRefreshToken False
     \<lparr>refresh_tokens =
        [''t'' \<mapsto> \<lparr>col_user_id = ''alice'', col_expires_at = 5, col_revoked = True\<rparr>]\<rparr>
     ''t'' ''bob'' 9 =
     (\<lparr>refresh_tokens =
        [''t'' \<mapsto> \<lparr>col_user_id = ''alice'', col_expires_at = 5, col_revoked = True\<rparr>]\<rparr>,
      Some (ErrDatabase UniqueViolation))"
  by (simp add: CreateRefreshToken_def DB_CreateRefreshToken_def fresh_store_def)

subsection \<open>A revoked token under further storage calls\<close>

text \<open>
  A \<^verbatim>\<open>CreateRefreshToken\<close> returns an error in the PostgreSQL realization only, when
  the driver fails or the table holds a row of the token.
\<close>

lemma create_refused_iff:
  "op_error (fault, OpCreate t userID expiresAt) s \<noteq> None \<longleftrightarrow>
     (case s of File f \<Rightarrow> False | Postgres d \<Rightarrow> fault \<or> refresh_tokens d t \<noteq> None)"
  by (cases s) (simp_all add: CreateRefreshToken_def DB_CreateRefreshToken_def)

text \<open>
  One call leaves a token that is revoked or absent revoked or absent, unless it is a
  \<^verbatim>\<open>CreateRefreshToken\<close> with that token that returns nil.
\<close>

lemma apply_op_keeps_revoked:
  assumes "Storage_GetRefreshToken False s t = Inr (u, e, True) \<or>
           Storage_GetRefreshToken False s t = Inl ErrTokenNotFound"
    and "creates op t \<longrightarrow> op_error op s \<noteq> None"
  shows "Storage_GetRefreshToken False (apply_op op s) t = Inr (u, e, True) \<or>
         Storage_GetRefreshToken False (apply_op op s) t = Inl ErrTokenNotFound"
proof (cases op)
  case (Pair fault o1)
  show ?thesis
  proof (cases s)
    case (File f)
    with Pair assms show ?thesis
      by (cases o1)
         (auto simp: GetRefreshToken_def CreateRefreshToken_def RevokeRefreshToken_def
            DeleteExpiredRefreshTokens_def fold_sweep_pointwise
            split: option.splits if_splits)
  next
    case (Postgres d)
    with Pair assms show ?thesis
      by (cases o1)
         (auto simp: DB_GetRefreshToken_def DB_CreateRefreshToken_def
            DB_RevokeRefreshToken_def DB_DeleteExpiredRefreshTokens_def
            split: option.splits if_splits)
  qed
qed

lemma fold_apply_op_keeps_revoked:
  assumes "Storage_GetRefreshToken False s t = Inr (u, e, True) \<or>
           Storage_GetRefreshToken False s t = Inl ErrTokenNotFound"
    and "creates_refused t ops s"
  shows "Storage_GetRefreshToken False (fold apply_op ops s) t = Inr (u, e, True) \<or>
         Storage_GetRefreshToken False (fold apply_op ops s) t = Inl ErrTokenNotFound"
  using assms
proof (induction ops arbitrary: s)
  case Nil
  then show ?case by simp
next
  case (Cons op ops)
  have "Storage_GetRefreshToken False (apply_op op s) t = Inr (u, e, True) \<or>
        Storage_GetRefreshToken False (apply_op op s) t = Inl ErrTokenNotFound"
    using Cons.prems by (intro apply_op_keeps_revoked) auto
  then show ?case
    using Cons.prems by (simp add: Cons.IH)
qed

text \<open>A sequence that has no \<^verbatim>\<open>CreateRefreshToken\<close> with \<open>t\<close> at all is such a sequence.\<close>

lemma creates_refused_none:
  "\<forall>op \<in> set ops. \<not> creates op t \<Longrightarrow> creates_refused t ops s"
  by (induction ops arbitrary: s) simp_all

text \<open>
  Claim C2, amended. A token \<open>t\<close> that is stored and revoked stays revoked, with its user
  and expiry, until the sweep removes it, under every sequence of create, revoke, get and
  sweep calls in which no \<^verbatim>\<open>CreateRefreshToken\<close> with \<open>t\<close> returns nil, whatever the
  driver does. The PostgreSQL realization refuses such a call as long as the table holds
  the row of \<open>t\<close>, so that only a create after the sweep has removed \<open>t\<close> is set
  aside there; the file realization never returns an error from it.
\<close>

theorem revoked_token_stays_revoked:
  assumes "Storage_GetRefreshToken False s t = Inr (u, e, True)"
    and "creates_refused t ops s"
  shows "Storage_GetRefreshToken False (run_ops ops s) t = Inr (u, e, True) \<or>
         Storage_GetRefreshToken False (run_ops ops s) t = Inl ErrTokenNotFound"
  unfolding run_ops_def using assms by (intro fold_apply_op_keeps_revoked) auto

theorem revoked_token_stays_revoked_witness:
  "Storage_GetRefreshToken False
     (pg_store [''t'' \<mapsto> \<lparr>col_user_id = ''S'', col_expires_at = 20, col_revoked = True\<rparr>]) ''t'' =
     Inr (''S'', 20, True) \<and>
   creates_refused ''t''
     [(False, OpCreate ''t'' ''bob'' 99), (True, OpRevoke ''t''), (False, OpGet ''t''),
      (False, OpDeleteExpired 10 []), (False, OpCreate ''t'' ''bob'' 99)]
     (pg_store [''t'' \<mapsto> \<lparr>col_user_id = ''S'', col_expires_at = 20, col_revoked = True\<rparr>]) \<and>
   Storage_GetRefreshToken False
     (run_ops
        [(False, OpCreate ''t'' ''bob'' 99), (True, OpRevoke ''t''), (False, OpGet ''t''),
         (False, OpDeleteExpired 10 []), (False, OpCreate ''t'' ''bob'' 99)]
        (pg_store [''t'' \<mapsto> \<lparr>col_user_id = ''S'', col_expires_at = 20, col_revoked = True\<rparr>]))
     ''t'' =
     Inr (''S'', 20, True)"
proof -
  let ?ops = "[(False, OpCreate ''t'' ''bob'' 99), (True, OpRevoke ''t''), (False, OpGet ''t''),
               (False, OpDeleteExpired 10 []), (False, OpCreate ''t'' ''bob'' 99)]"
  let ?s = "pg_store [''t'' \<mapsto> \<lparr>col_user_id = ''S'', col_expires_at = 20, col_revoked = True\<rparr>]"
  have h1: "Storage_GetRefreshToken False ?s ''t'' = Inr (''S'', 20, True)"
    by (simp add: pg_store_def DB_GetRefreshToken_def)
  have h2: "creates_refused ''t'' ?ops ?s"
    by (simp add: pg_store_def DB_CreateRefreshToken_def DB_RevokeRefreshToken_def
          DB_DeleteExpiredRefreshTokens_def)
  have still: "Storage_GetRefreshToken False (run_ops ?ops ?s) ''t'' \<noteq> Inl ErrTokenNotFound"
    by (simp add: run_ops_def pg_store_def DB_GetRefreshToken_def DB_CreateRefreshToken_def
          DB_RevokeRefreshToken_def DB_DeleteExpiredRefreshTokens_def)
  from revoked_token_stays_revoked[OF h1 h2] still
  have "Storage_GetRefreshToken False (run_ops ?ops ?s) ''t'' = Inr (''S'', 20, True)"
    by blast
  with h1 h2 show ?thesis
    by blast
qed

text \<open>
  The claim as the specification states it allows the call sequence to create tokens at
  any time. A sweep removes the revoked token once it has expired, and the key is free
  again: a create of the same string succeeds, in the PostgreSQL realization as in the
  file realization, and the token is reported as not revoked.
\<close>

theorem revoked_token_stays_revoked_counterexample:
  "Storage_GetRefreshToken False
     (pg_store [''t'' \<mapsto> \<lparr>col_user_id = ''S'', col_expires_at = 5, col_revoked = True\<rparr>]) ''t'' =
     Inr (''S'', 5, True) \<and>
   Storage_GetRefreshToken False
     (run_ops [(False, OpDeleteExpired 10 []), (False, OpCreate ''t'' ''S'' 99)]
        (pg_store [''t'' \<mapsto> \<lparr>col_user_id = ''S'', col_expires_at = 5, col_revoked = True\<rparr>]))
     ''t'' =
     Inr (''S'', 99, False) \<and>
   Storage_GetRefreshToken False
     (file_store [''t'' \<mapsto> \<lparr>TokUserID = ''S'', ExpiresAt = 5, Revoked = True\<rparr>]) ''t'' =
     Inr (''S'', 5, True) \<and>
   Storage_GetRefreshToken False
     (run_ops [(False, OpDeleteExpired 10 [''t'']), (False, OpCreate ''t'' ''S'' 99)]
        (file_store [''t'' \<mapsto> \<lparr>TokUserID = ''S'', ExpiresAt = 5, Revoked = True\<rparr>]))
     ''t'' =
     Inr (''S'', 99, False)"
  by (simp add: run_ops_def pg_store_def DB_GetRefreshToken_def DB_CreateRefreshToken_def
        DB_DeleteExpiredRefreshTokens_def file_store_def GetRefreshToken_def
        CreateRefreshToken_def DeleteExpiredRefreshTokens_def sweep_step_def)

section \<open>The endpoints\<close>

subsection \<open>What the handlers see of the store\<close>

text \<open>A row that a call with a failing driver returned is the row the store holds.\<close>

lemma Storage_GetRefreshToken_fault:
  "Storage_GetRefreshToken fault store rt = Inr (u, e, rv) \<Longrightarrow>
   Storage_GetRefreshToken False store rt = Inr (u, e, rv)"
  by (cases store) (auto simp: DB_GetRefreshToken_def split: if_splits)

lemma revoke_ok_revoked:
  assumes "Storage_GetRefreshToken fault0 store rt = Inr (u, e, rv)"
    and "snd (Storage_RevokeRefreshToken fault store rt) = None"
  shows "Storage_GetRefreshToken False (fst (Storage_RevokeRefreshToken fault store rt)) rt =
           Inr (u, e, True)"
  using assms
  by (cases store)
     (auto simp: GetRefreshToken_def RevokeRefreshToken_def DB_GetRefreshToken_def
        DB_RevokeRefreshToken_def split: option.splits if_splits)

lemma revoke_failed_unchanged:
  "snd (Storage_RevokeRefreshToken fault store rt) \<noteq> None \<Longrightarrow>
   Storage_GetRefreshToken False store rt = Inr row \<Longrightarrow>
   fst (Storage_RevokeRefreshToken fault store rt) = store"
  by (cases store)
     (auto simp: GetRefreshToken_def RevokeRefreshToken_def DB_GetRefreshToken_def
        DB_RevokeRefreshToken_def split: option.splits if_splits)

text \<open>In the file realization the revocation of a token that was just read cannot fail.\<close>

lemma file_revoke_after_get:
  "Storage_GetRefreshToken fault0 (File f) rt = Inr row \<Longrightarrow>
   snd (Storage_RevokeRefreshToken fault (File f) rt) = None"
  by (auto simp: GetRefreshToken_def RevokeRefreshToken_def split: option.splits)

lemma create_other:
  assumes "new \<noteq> rt"
  shows "Storage_GetRefreshToken False
           (fst (Storage_CreateRefreshToken fault store new u e)) rt =
         Storage_GetRefreshToken False store rt"
  using assms
  by (cases store)
     (auto simp: GetRefreshToken_def CreateRefreshToken_def DB_GetRefreshToken_def
        DB_CreateRefreshToken_def split: option.splits if_splits)

lemma create_ok_stored:
  "snd (Storage_CreateRefreshToken fault store new u e) = None \<Longrightarrow>
   Storage_GetRefreshToken False (fst (Storage_CreateRefreshToken fault store new u e)) new =
     Inr (u, e, False)"
  by (cases store)
     (auto simp: GetRefreshToken_def CreateRefreshToken_def DB_GetRefreshToken_def
        DB_CreateRefreshToken_def split: option.splits if_splits)

lemma create_ok_after_failed_revoke:
  "snd (Storage_CreateRefreshToken fault store new u e) = None \<Longrightarrow>
   snd (Storage_RevokeRefreshToken fault' store rt) \<noteq> None \<Longrightarrow>
   Storage_GetRefreshToken False store rt = Inr row \<Longrightarrow> new \<noteq> rt"
  by (cases store)
     (auto simp: GetRefreshToken_def CreateRefreshToken_def DB_GetRefreshToken_def
        RevokeRefreshToken_def DB_RevokeRefreshToken_def DB_CreateRefreshToken_def
        split: option.splits if_splits)

subsection \<open>Logout\<close>

text \<open>
  Claim C6, amended. A \<^verbatim>\<open>POST\<close> to the logout endpoint whose body carries a refresh
  token that is not the empty string is answered with 204, whatever the store holds and
  whatever \<^verbatim>\<open>RevokeRefreshToken\<close> returns: an unknown or revoked token and a failing
  driver are not reported.
\<close>

theorem logout_reports_success:
  assumes "Method r = ''POST''" and "RefreshToken r = Some rt" and "rt \<noteq> []"
  shows "snd (logout_handler fault store r) = StatusNoContent"
  using assms by (simp add: logout_handler_def)

theorem logout_reports_success_witness:
  "Method (post ''unknown'') = ''POST'' \<and> RefreshToken (post ''unknown'') = Some ''unknown'' \<and>
   ''unknown'' \<noteq> [] \<and>
   snd (Storage_RevokeRefreshToken True (pg_store Map.empty) ''unknown'') =
     Some (ErrDatabase DriverFailure) \<and>
   snd (logout_handler True (pg_store Map.empty) (post ''unknown'')) = StatusNoContent"
proof -
  have h1: "Method (post ''unknown'') = ''POST''"
    and h2: "RefreshToken (post ''unknown'') = Some ''unknown''"
    and h3: "''unknown'' \<noteq> []"
    by (simp_all add: post_def)
  have err: "snd (Storage_RevokeRefreshToken True (pg_store Map.empty) ''unknown'') =
      Some (ErrDatabase DriverFailure)"
    by (simp add: pg_store_def DB_RevokeRefreshToken_def)
  from logout_reports_success[OF h1 h2 h3] h1 h2 h3 err show ?thesis
    by blast
qed

text \<open>
  The claim as the specification states it covers every token. The handler answers the
  empty token with 400 before it calls the store.
\<close>

theorem logout_reports_success_counterexample:
  "logout_handler False (file_store Map.empty) (post []) =
     (file_store Map.empty, StatusBadRequest)"
  by (simp add: logout_handler_def post_def)

subsection \<open>Refresh: expiry\<close>

text \<open>
  Claim C4, amended. A \<^verbatim>\<open>POST\<close> to the refresh endpoint with a stored token whose expiry
  lies before the time of the check is answered with 401, and the store is left as it
  is. (At the instant of the expiry itself the token is still accepted.)
\<close>

theorem refresh_rejects_expired:
  assumes "Method r = ''POST''" and "RefreshToken r = Some rt" and "rt \<noteq> []"
    and "Storage_GetRefreshToken False store rt = Inr (userID, expiresAt, revoked)"
    and "expiresAt < now_check env"
  shows "refresh_handler GenerateToken refreshTTL env store r = (store, StatusUnauthorized)"
proof (cases "Storage_GetRefreshToken (get_fault env) store rt")
  case (Inl err)
  with assms show ?thesis by (simp add: refresh_handler_def)
next
  case (Inr row)
  obtain u e rv where row: "row = (u, e, rv)" by (cases row)
  from Inr row assms(4) have "e = expiresAt"
    using Storage_GetRefreshToken_fault by fastforce
  with Inr row assms show ?thesis by (simp add: refresh_handler_def)
qed

theorem refresh_rejects_expired_witness:
  "Method (post ''r1'') = ''POST'' \<and> RefreshToken (post ''r1'') = Some ''r1'' \<and> ''r1'' \<noteq> [] \<and>
   Storage_GetRefreshToken False
     (file_store [''r1'' \<mapsto> \<lparr>TokUserID = ''S'', ExpiresAt = 100, Revoked = False\<rparr>]) ''r1'' =
     Inr (''S'', 100, False) \<and>
   100 < now_check (calm 101 ''r2'') \<and>
   refresh_handler signer 3600 (calm 101 ''r2'')
     (file_store [''r1'' \<mapsto> \<lparr>TokUserID = ''S'', ExpiresAt = 100, Revoked = False\<rparr>])
     (post ''r1'') =
     (file_store [''r1'' \<mapsto> \<lparr>TokUserID = ''S'', ExpiresAt = 100, Revoked = False\<rparr>],
      StatusUnauthorized)"
proof -
  let ?store = "file_store [''r1'' \<mapsto> \<lparr>TokUserID = ''S'', ExpiresAt = 100, Revoked = False\<rparr>]"
  have h1: "Method (post ''r1'') = ''POST''"
    and h2: "RefreshToken (post ''r1'') = Some ''r1''"
    and h3: "''r1'' \<noteq> []"
    by (simp_all add: post_def)
  have h4: "Storage_GetRefreshToken False ?store ''r1'' = Inr (''S'', 100, False)"
    by (simp add: file_store_def GetRefreshToken_def)
  have h5: "100 < now_check (calm 101 ''r2'')"
    by (simp add: calm_def)
  from refresh_rejects_expired[OF h1 h2 h3 h4 h5] h1 h2 h3 h4 h5 show ?thesis
    by blast
qed

text \<open>
  The claim as the specification states it rejects the token from the instant of its
  expiry on. The handler tests \<^verbatim>\<open>time.Now().After(expiresAt)\<close>: at
  \<open>now = expiresAt = 100\<close> the token passes, is rotated, and the answer is 200.
\<close>

theorem refresh_rejects_expired_counterexample:
  "refresh_handler signer 3600 (calm 100 ''r2'')
     (file_store [''r1'' \<mapsto> \<lparr>TokUserID = ''S'', ExpiresAt = 100, Revoked = False\<rparr>])
     (post ''r1'') =
     (file_store [''r1'' \<mapsto> \<lparr>TokUserID = ''S'', ExpiresAt = 100, Revoked = True\<rparr>,
                  ''r2'' \<mapsto> \<lparr>TokUserID = ''S'', ExpiresAt = 3700, Revoked = False\<rparr>],
      StatusOK ''jwt.S'' ''r2'')"
  by (simp add: refresh_handler_def post_def calm_def file_store_def signer_def
        GetRefreshToken_def RevokeRefreshToken_def CreateRefreshToken_def)

subsection \<open>Refresh: rotation\<close>

text \<open>
  Claim C1, amended. If a \<^verbatim>\<open>POST\<close> to the refresh endpoint with the token \<open>rt\<close> is
  answered with 200, the call of \<^verbatim>\<open>RevokeRefreshToken\<close> in it returned nil, and the
  new token differs from \<open>rt\<close>, then every later request with \<open>rt\<close> on the resulting
  store is answered with 401 and changes nothing, at any time and whatever the driver
  does.
\<close>

theorem refresh_rotation_invalidates:
  assumes request: "Method r = ''POST''" "RefreshToken r = Some rt" "rt \<noteq> []"
    and first: "refresh_handler GenerateToken refreshTTL env store r =
                  (store', StatusOK token rt')"
    and revoked: "snd (Storage_RevokeRefreshToken (revoke_fault env) store rt) = None"
    and fresh: "newRT env \<noteq> rt"
  shows "refresh_handler GenerateToken' refreshTTL' env' store' r =
           (store', StatusUnauthorized)"
proof -
  from first request obtain u e rv where
    get: "Storage_GetRefreshToken (get_fault env) store rt = Inr (u, e, rv)"
    by (auto simp: refresh_handler_def split: sum.splits)
  let ?s1 = "fst (Storage_RevokeRefreshToken (revoke_fault env) store rt)"
  from first request get
  have store': "store' = fst (Storage_CreateRefreshToken (create_fault env) ?s1
                                (newRT env) u (now_issue env + refreshTTL))"
    by (auto simp: refresh_handler_def Let_def split: sum.splits if_splits)
  have "Storage_GetRefreshToken False ?s1 rt = Inr (u, e, True)"
    using revoke_ok_revoked[OF get revoked] .
  with fresh have stored: "Storage_GetRefreshToken False store' rt = Inr (u, e, True)"
    by (simp add: store' create_other)
  show ?thesis
  proof (cases "Storage_GetRefreshToken (get_fault env') store' rt")
    case (Inl err)
    with request show ?thesis by (simp add: refresh_handler_def)
  next
    case (Inr row)
    obtain u' e' rv' where row: "row = (u', e', rv')" by (cases row)
    from Inr row stored have "rv' = True"
      using Storage_GetRefreshToken_fault by fastforce
    with Inr row request show ?thesis by (simp add: refresh_handler_def)
  qed
qed

theorem refresh_rotation_invalidates_witness:
  "Method (post ''r1'') = ''POST'' \<and> RefreshToken (post ''r1'') = Some ''r1'' \<and> ''r1'' \<noteq> [] \<and>
   refresh_handler signer 3600 (calm 100 ''r2'')
     (file_store [''r1'' \<mapsto> \<lparr>TokUserID = ''S'', ExpiresAt = 500, Revoked = False\<rparr>])
     (post ''r1'') =
     (file_store [''r1'' \<mapsto> \<lparr>TokUserID = ''S'', ExpiresAt = 500, Revoked = True\<rparr>,
                  ''r2'' \<mapsto> \<lparr>TokUserID = ''S'', ExpiresAt = 3700, Revoked = False\<rparr>],
      StatusOK ''jwt.S'' ''r2'') \<and>
   snd (Storage_RevokeRefreshToken (revoke_fault (calm 100 ''r2''))
          (file_store [''r1'' \<mapsto> \<lparr>TokUserID = ''S'', ExpiresAt = 500, Revoked = False\<rparr>])
          ''r1'') = None \<and>
   newRT (calm 100 ''r2'') \<noteq> ''r1'' \<and>
   refresh_handler signer 3600 (calm 101 ''r3'')
     (file_store [''r1'' \<mapsto> \<lparr>TokUserID = ''S'', ExpiresAt = 500, Revoked = True\<rparr>,
                  ''r2'' \<mapsto> \<lparr>TokUserID = ''S'', ExpiresAt = 3700, Revoked = False\<rparr>])
     (post ''r1'') =
     (file_store [''r1'' \<mapsto> \<lparr>TokUserID = ''S'', ExpiresAt = 500, Revoked = True\<rparr>,
                  ''r2'' \<mapsto> \<lparr>TokUserID = ''S'', ExpiresAt = 3700, Revoked = False\<rparr>],
      StatusUnauthorized)"
proof -
  let ?store = "file_store [''r1'' \<mapsto> \<lparr>TokUserID = ''S'', ExpiresAt = 500, Revoked = False\<rparr>]"
  let ?store' = "file_store [''r1'' \<mapsto> \<lparr>TokUserID = ''S'', ExpiresAt = 500, Revoked = True\<rparr>,
                  ''r2'' \<mapsto> \<lparr>TokUserID = ''S'', ExpiresAt = 3700, Revoked = False\<rparr>]"
  have h1: "Method (post ''r1'') = ''POST''"
    and h2: "RefreshToken (post ''r1'') = Some ''r1''"
    and h3: "''r1'' \<noteq> []"
    by (simp_all add: post_def)
  have h4: "refresh_handler signer 3600 (calm 100 ''r2'') ?store (post ''r1'') =
      (?store', StatusOK ''jwt.S'' ''r2'')"
    by (simp add: refresh_handler_def post_def calm_def file_store_def signer_def
          GetRefreshToken_def RevokeRefreshToken_def CreateRefreshToken_def)
  have h5: "snd (Storage_RevokeRefreshToken (revoke_fault (calm 100 ''r2'')) ?store ''r1'') =
      None"
    by (simp add: file_store_def RevokeRefreshToken_def)
  have h6: "newRT (calm 100 ''r2'') \<noteq> ''r1''"
    by (simp add: calm_def)
  from refresh_rotation_invalidates[OF h1 h2 h3 h4 h5 h6] h1 h2 h3 h4 h5 h6 show ?thesis
    by blast
qed

text \<open>
  The claim as the specification states it holds after every successful refresh. The
  handler drops the error of \<^verbatim>\<open>RevokeRefreshToken\<close>: when the driver fails that one
  call, the answer is still 200, the row of \<open>r1\<close> is not revoked, and a second request
  with \<open>r1\<close> is answered with 200 again.
\<close>

theorem refresh_rotation_invalidates_counterexample:
  "refresh_handler signer 3600 ((calm 100 ''r2'')\<lparr>revoke_fault := True\<rparr>)
     (pg_store [''r1'' \<mapsto> \<lparr>col_user_id = ''S'', col_expires_at = 500, col_revoked = False\<rparr>])
     (post ''r1'') =
     (pg_store [''r1'' \<mapsto> \<lparr>col_user_id = ''S'', col_expires_at = 500, col_revoked = False\<rparr>,
                ''r2'' \<mapsto> \<lparr>col_user_id = ''S'', col_expires_at = 3700, col_revoked = False\<rparr>],
      StatusOK ''jwt.S'' ''r2'') \<and>
   snd (refresh_handler signer 3600 (calm 101 ''r3'')
          (pg_store [''r1'' \<mapsto> \<lparr>col_user_id = ''S'', col_expires_at = 500, col_revoked = False\<rparr>,
                     ''r2'' \<mapsto> \<lparr>col_user_id = ''S'', col_expires_at = 3700, col_revoked = False\<rparr>])
          (post ''r1'')) =
     StatusOK ''jwt.S'' ''r3''"
  by (simp add: refresh_handler_def post_def calm_def pg_store_def signer_def
        DB_GetRefreshToken_def DB_RevokeRefreshToken_def DB_CreateRefreshToken_def)

subsection \<open>Refresh: the error of the revocation is dropped\<close>

text \<open>
  What the handler does with a token that passes the validity check: it calls
  \<^verbatim>\<open>RevokeRefreshToken\<close> and \<^verbatim>\<open>CreateRefreshToken\<close>, looks at neither result, and
  answers by the outcome of the signing.
\<close>

lemma refresh_handler_valid_token:
  assumes "Method r = ''POST''" and "RefreshToken r = Some rt" and "rt \<noteq> []"
    and "Storage_GetRefreshToken (get_fault env) store rt = Inr (userID, expiresAt, False)"
    and "\<not> expiresAt < now_check env"
  shows "refresh_handler GenerateToken refreshTTL env store r =
           (fst (Storage_CreateRefreshToken (create_fault env)
                   (fst (Storage_RevokeRefreshToken (revoke_fault env) store rt))
                   (newRT env) userID (now_issue env + refreshTTL)),
            case GenerateToken userID of
              Inl err \<Rightarrow> StatusInternalServerError
            | Inr token \<Rightarrow> StatusOK token (newRT env))"
  using assms by (simp add: refresh_handler_def Let_def split: sum.splits)

text \<open>
  Claim C10, amended. Let the presented token pass the validity check, let the call of
  \<^verbatim>\<open>CreateRefreshToken\<close> return nil and let the signing of the access token succeed.
  Then the answer is 200 with the new refresh token, and the store holds the new token,
  whatever \<^verbatim>\<open>RevokeRefreshToken\<close> returned. If that call returned an error, and the
  expiry of the new token (the time of issue plus the configured lifetime) is not before
  the time of the check, then the old and the new token are both active in the resulting
  store at the time of the check.
\<close>

theorem refresh_drops_revoke_error:
  assumes request: "Method r = ''POST''" "RefreshToken r = Some rt" "rt \<noteq> []"
    and get: "Storage_GetRefreshToken (get_fault env) store rt = Inr (userID, expiresAt, False)"
    and valid: "\<not> expiresAt < now_check env"
    and created: "snd (Storage_CreateRefreshToken (create_fault env)
                         (fst (Storage_RevokeRefreshToken (revoke_fault env) store rt))
                         (newRT env) userID (now_issue env + refreshTTL)) = None"
    and signed: "GenerateToken userID = Inr token"
  shows "snd (refresh_handler GenerateToken refreshTTL env store r) =
           StatusOK token (newRT env) \<and>
         Storage_GetRefreshToken False
           (fst (refresh_handler GenerateToken refreshTTL env store r)) (newRT env) =
           Inr (userID, now_issue env + refreshTTL, False) \<and>
         (snd (Storage_RevokeRefreshToken (revoke_fault env) store rt) \<noteq> None \<and>
          now_check env \<le> now_issue env + refreshTTL \<longrightarrow>
          active (fst (refresh_handler GenerateToken refreshTTL env store r))
            (now_check env) rt \<and>
          active (fst (refresh_handler GenerateToken refreshTTL env store r))
            (now_check env) (newRT env))"
proof -
  let ?s1 = "fst (Storage_RevokeRefreshToken (revoke_fault env) store rt)"
  let ?cr = "Storage_CreateRefreshToken (create_fault env) ?s1 (newRT env) userID
               (now_issue env + refreshTTL)"
  have run: "refresh_handler GenerateToken refreshTTL env store r =
      (fst ?cr, StatusOK token (newRT env))"
    using request get valid signed
    by (simp add: refresh_handler_def Let_def)
  have new: "Storage_GetRefreshToken False (fst ?cr) (newRT env) =
      Inr (userID, now_issue env + refreshTTL, False)"
    using created by (rule create_ok_stored)
  have both: "active (fst ?cr) (now_check env) rt \<and> active (fst ?cr) (now_check env) (newRT env)"
    if failed: "snd (Storage_RevokeRefreshToken (revoke_fault env) store rt) \<noteq> None"
      and ttl: "now_check env \<le> now_issue env + refreshTTL"
  proof -
    have stored: "Storage_GetRefreshToken False store rt = Inr (userID, expiresAt, False)"
      using get by (rule Storage_GetRefreshToken_fault)
    have s1: "?s1 = store"
      using failed stored by (rule revoke_failed_unchanged)
    have neq: "newRT env \<noteq> rt"
      using created failed stored unfolding s1 by (rule create_ok_after_failed_revoke)
    have "Storage_GetRefreshToken False (fst ?cr) rt = Inr (userID, expiresAt, False)"
      using neq stored by (simp add: create_other s1)
    with new show ?thesis
      using valid ttl by (simp add: active_def)
  qed
  show ?thesis
    unfolding run using new both by simp
qed

theorem refresh_drops_revoke_error_witness:
  "Method (post ''r1'') = ''POST'' \<and> RefreshToken (post ''r1'') = Some ''r1'' \<and> ''r1'' \<noteq> [] \<and>
   Storage_GetRefreshToken (get_fault ((calm 100 ''r2'')\<lparr>revoke_fault := True\<rparr>))
     (pg_store [''r1'' \<mapsto> \<lparr>col_user_id = ''S'', col_expires_at = 500, col_revoked = False\<rparr>])
     ''r1'' = Inr (''S'', 500, False) \<and>
   \<not> 500 < now_check ((calm 100 ''r2'')\<lparr>revoke_fault := True\<rparr>) \<and>
   snd (Storage_CreateRefreshToken False
          (pg_store [''r1'' \<mapsto> \<lparr>col_user_id = ''S'', col_expires_at = 500, col_revoked = False\<rparr>])
          ''r2'' ''S'' 3700) = None \<and>
   signer ''S'' = Inr ''jwt.S'' \<and>
   snd (Storage_RevokeRefreshToken True
          (pg_store [''r1'' \<mapsto> \<lparr>col_user_id = ''S'', col_expires_at = 500, col_revoked = False\<rparr>])
          ''r1'') = Some (ErrDatabase DriverFailure) \<and>
   snd (refresh_handler signer 3600 ((calm 100 ''r2'')\<lparr>revoke_fault := True\<rparr>)
          (pg_store [''r1'' \<mapsto> \<lparr>col_user_id = ''S'', col_expires_at = 500, col_revoked = False\<rparr>])
          (post ''r1'')) = StatusOK ''jwt.S'' ''r2'' \<and>
   Storage_GetRefreshToken False
     (fst (refresh_handler signer 3600 ((calm 100 ''r2'')\<lparr>revoke_fault := True\<rparr>)
          (pg_store [''r1'' \<mapsto> \<lparr>col_user_id = ''S'', col_expires_at = 500, col_revoked = False\<rparr>])
          (post ''r1''))) ''r2'' = Inr (''S'', 3700, False) \<and>
   active (fst (refresh_handler signer 3600 ((calm 100 ''r2'')\<lparr>revoke_fault := True\<rparr>)
          (pg_store [''r1'' \<mapsto> \<lparr>col_user_id = ''S'', col_expires_at = 500, col_revoked = False\<rparr>])
          (post ''r1''))) 100 ''r1'' \<and>
   active (fst (refresh_handler signer 3600 ((calm 100 ''r2'')\<lparr>revoke_fault := True\<rparr>)
          (pg_store [''r1'' \<mapsto> \<lparr>col_user_id = ''S'', col_expires_at = 500, col_revoked = False\<rparr>])
          (post ''r1''))) 100 ''r2''"
proof -
  let ?env = "(calm 100 ''r2'')\<lparr>revoke_fault := True\<rparr>"
  let ?store = "pg_store [''r1'' \<mapsto> \<lparr>col_user_id = ''S'', col_expires_at = 500, col_revoked = False\<rparr>]"
  have h1: "Method (post ''r1'') = ''POST''"
    and h2: "RefreshToken (post ''r1'') = Some ''r1''"
    and h3: "''r1'' \<noteq> []"
    by (simp_all add: post_def)
  have h4: "Storage_GetRefreshToken (get_fault ?env) ?store ''r1'' = Inr (''S'', 500, False)"
    by (simp add: calm_def pg_store_def DB_GetRefreshToken_def)
  have h5: "\<not> 500 < now_check ?env"
    by (simp add: calm_def)
  have failed: "snd (Storage_RevokeRefreshToken True ?store ''r1'') =
      Some (ErrDatabase DriverFailure)"
    by (simp add: pg_store_def DB_RevokeRefreshToken_def)
  have made: "snd (Storage_CreateRefreshToken False ?store ''r2'' ''S'' 3700) = None"
    by (simp add: pg_store_def DB_CreateRefreshToken_def)
  have env: "now_check ?env = 100" "now_issue ?env = 100" "newRT ?env = ''r2''"
    "revoke_fault ?env = True" "create_fault ?env = False"
    by (simp_all add: calm_def)
  have s1: "fst (Storage_RevokeRefreshToken True ?store ''r1'') = ?store"
    by (simp add: pg_store_def DB_RevokeRefreshToken_def)
  have h6: "snd (Storage_CreateRefreshToken (create_fault ?env)
      (fst (Storage_RevokeRefreshToken (revoke_fault ?env) ?store ''r1''))
      (newRT ?env) ''S'' (now_issue ?env + 3600)) = None"
    unfolding env s1 using made by simp
  have h7: "signer ''S'' = Inr ''jwt.S''"
    by (simp add: signer_def)
  note inst =
    refresh_drops_revoke_error[where GenerateToken = signer, OF h1 h2 h3 h4 h5 h6 h7]
  have ttl: "now_check ?env \<le> now_issue ?env + 3600"
    by (simp add: env)
  from inst failed ttl
  have "snd (refresh_handler signer 3600 ?env ?store (post ''r1'')) = StatusOK ''jwt.S'' ''r2''"
    and "Storage_GetRefreshToken False
           (fst (refresh_handler signer 3600 ?env ?store (post ''r1''))) ''r2'' =
         Inr (''S'', 3700, False)"
    and "active (fst (refresh_handler signer 3600 ?env ?store (post ''r1''))) 100 ''r1''"
    and "active (fst (refresh_handler signer 3600 ?env ?store (post ''r1''))) 100 ''r2''"
    unfolding env by simp_all
  with h1 h2 h3 h4 h5 made h7 failed show ?thesis
    by blast
qed

text \<open>
  The claim as the specification states it has the new token returned, and both tokens
  active, whenever the presented one is valid and its revocation failed. The handler
  checks the error of the signing: when \<^verbatim>\<open>GenerateToken\<close> fails, the new token \<open>r2\<close>
  is stored and the answer is 500, without it. And the lifetime is whatever
  \<^verbatim>\<open>REFRESH_TOKEN_TTL\<close> says: with a negative one, the revocation failing, the answer is
  200 with a token \<open>r2\<close> that has expired before it is returned, so that the old token
  alone is active.
\<close>

theorem refresh_drops_revoke_error_counterexample:
  "refresh_handler no_signer 3600 ((calm 100 ''r2'')\<lparr>revoke_fault := True\<rparr>)
     (pg_store [''r1'' \<mapsto> \<lparr>col_user_id = ''S'', col_expires_at = 500, col_revoked = False\<rparr>])
     (post ''r1'') =
     (pg_store [''r1'' \<mapsto> \<lparr>col_user_id = ''S'', col_expires_at = 500, col_revoked = False\<rparr>,
                ''r2'' \<mapsto> \<lparr>col_user_id = ''S'', col_expires_at = 3700, col_revoked = False\<rparr>],
      StatusInternalServerError) \<and>
   refresh_handler signer (- 3600) ((calm 100 ''r2'')\<lparr>revoke_fault := True\<rparr>)
     (pg_store [''r1'' \<mapsto> \<lparr>col_user_id = ''S'', col_expires_at = 500, col_revoked = False\<rparr>])
     (post ''r1'') =
     (pg_store [''r1'' \<mapsto> \<lparr>col_user_id = ''S'', col_expires_at = 500, col_revoked = False\<rparr>,
                ''r2'' \<mapsto> \<lparr>col_user_id = ''S'', col_expires_at = - 3500, col_revoked = False\<rparr>],
      StatusOK ''jwt.S'' ''r2'') \<and>
   active
     (pg_store [''r1'' \<mapsto> \<lparr>col_user_id = ''S'', col_expires_at = 500, col_revoked = False\<rparr>,
                ''r2'' \<mapsto> \<lparr>col_user_id = ''S'', col_expires_at = - 3500, col_revoked = False\<rparr>])
     100 ''r1'' \<and>
   \<not> active
     (pg_store [''r1'' \<mapsto> \<lparr>col_user_id = ''S'', col_expires_at = 500, col_revoked = False\<rparr>,
                ''r2'' \<mapsto> \<lparr>col_user_id = ''S'', col_expires_at = - 3500, col_revoked = False\<rparr>])
     100 ''r2''"
  by (simp add: refresh_handler_def post_def calm_def pg_store_def signer_def no_signer_def
        DB_GetRefreshToken_def DB_RevokeRefreshToken_def DB_CreateRefreshToken_def active_def)

section \<open>Registering users and replaying the users file\<close>

subsection \<open>A failed \<^verbatim>\<open>CreateUser\<close>\<close>

text \<open>
  Claim C9. When \<^verbatim>\<open>CreateUser\<close> returns an error for a login that was not present, the
  error is one of \<^verbatim>\<open>users file is not opened\<close> and the two errors of the write; the user
  is in the map all the same: \<^verbatim>\<open>GetUserByLogin\<close> returns it, and a second
  \<^verbatim>\<open>CreateUser\<close> fails with \<^verbatim>\<open>user already exists\<close> and changes nothing.
\<close>

theorem CreateUser_not_atomic:
  assumes "users f (Login user) = None"
    and "CreateUser io f user = (f', Some e)"
  shows "(e = ErrFileNotOpened \<or> e = ErrClosed \<or> e = ErrShortWrite) \<and>
         GetUserByLogin f' (Login user) = Inr user \<and>
         CreateUser io' f' user = (f', Some (ErrUserExists (Login user)))"
  using assms
  by (auto simp: CreateUser_def GetUserByLogin_def file_Write_def Let_def
           split: option.splits if_splits write_fault.splits)

text \<open>
  The three errors occur: a store without a file handle, a store closed with
  \<^verbatim>\<open>CloseStorage\<close>, and a write the operating system cuts short.
\<close>

lemma CreateUser_failures:
  "snd (CreateUser NoFault (fresh_store\<lparr>usersFile := None\<rparr>) alice) = Some ErrFileNotOpened"
  "snd (CreateUser NoFault (fst (CloseStorage fresh_store)) alice) = Some ErrClosed"
  "snd (CreateUser (FailAfter 3) fresh_store alice) = Some ErrShortWrite"
  by (simp_all add: CreateUser_def CloseStorage_def fresh_store_def file_Write_def Let_def)

theorem CreateUser_not_atomic_witness:
  "users (fst (CloseStorage fresh_store)) (Login alice) = None \<and>
   CreateUser NoFault (fst (CloseStorage fresh_store)) alice =
     ((fst (CloseStorage fresh_store))\<lparr>users := [Login alice \<mapsto> alice]\<rparr>, Some ErrClosed) \<and>
   GetUserByLogin ((fst (CloseStorage fresh_store))\<lparr>users := [Login alice \<mapsto> alice]\<rparr>)
     (Login alice) = Inr alice \<and>
   CreateUser NoFault ((fst (CloseStorage fresh_store))\<lparr>users := [Login alice \<mapsto> alice]\<rparr>)
     alice =
     ((fst (CloseStorage fresh_store))\<lparr>users := [Login alice \<mapsto> alice]\<rparr>,
      Some (ErrUserExists (Login alice)))"
proof -
  have h1: "users (fst (CloseStorage fresh_store)) (Login alice) = None"
    by (simp add: CloseStorage_def fresh_store_def)
  have h2: "CreateUser NoFault (fst (CloseStorage fresh_store)) alice =
      ((fst (CloseStorage fresh_store))\<lparr>users := [Login alice \<mapsto> alice]\<rparr>, Some ErrClosed)"
    by (simp add: CreateUser_def CloseStorage_def fresh_store_def file_Write_def Let_def)
  from CreateUser_not_atomic[OF h1 h2, of NoFault] h1 h2 show ?thesis
    by blast
qed

subsection \<open>A line of the file\<close>

lemma digit_not_LF: "d < 10 \<Longrightarrow> LF \<noteq> digit d"
proof -
  assume "d < 10"
  then have "digit d \<in> set ''0123456789''"
    unfolding digit_def by (intro nth_mem) simp
  then show ?thesis by auto
qed

lemma hex_not_LF: "n < 16 \<Longrightarrow> LF \<noteq> hex n"
proof -
  assume "n < 16"
  then have "hex n \<in> set ''0123456789abcdef''"
    unfolding hex_def by (intro nth_mem) simp
  then show ?thesis by auto
qed

lemma decimal_no_LF: "LF \<notin> set (decimal n)"
proof (induction n rule: decimal.induct)
  case (1 n)
  show ?case
  proof (cases "n < 10")
    case True
    then show ?thesis
      by (subst decimal.simps) (simp add: digit_not_LF)
  next
    case False
    with 1 show ?thesis
      by (subst decimal.simps) (simp add: digit_not_LF)
  qed
qed

lemma itoa_no_LF: "LF \<notin> set (itoa i)"
  by (simp add: itoa_def decimal_no_LF)

lemma of_char_less_256: "(of_char b :: nat) < 256"
  by (cases b) (simp add: of_char_def)

lemma escape_byte_no_LF: "LF \<notin> set (escape_byte b)"
proof -
  have "(of_char b :: nat) div 16 < 16" "(of_char b :: nat) mod 16 < 16"
    using of_char_less_256[of b] by arith+
  then show ?thesis
    by (simp add: escape_byte_def hex_not_LF)
qed

lemma htmlSafeSet_not_LF: "htmlSafeSet b \<Longrightarrow> b \<noteq> LF"
  by (auto simp: htmlSafeSet_def)

text \<open>
  The bytes \<^verbatim>\<open>appendString\<close> copies after the first byte of a rune are continuation
  bytes.
\<close>

lemma DecodeRuneInString_tail:
  assumes "DecodeRuneInString (b # src) = (c, w)"
    and "\<not> (of_char b :: nat) < 0x80"
    and "\<not> (c = RuneError \<and> w = 1)"
  shows "\<forall>x \<in> set (take (w - 1) src). \<not> (of_char x :: nat) < 0x80"
proof (cases src)
  case Nil
  with assms show ?thesis
    by (auto simp: DecodeRuneInString.simps Let_def split: if_splits)
next
  case (Cons x1 s1)
  note src1 = this
  show ?thesis
  proof (cases s1)
    case Nil
    with src1 assms show ?thesis
      by (auto simp: DecodeRuneInString.simps Let_def split: if_splits)
  next
    case (Cons x2 s2)
    note src2 = this
    show ?thesis
    proof (cases s2)
      case Nil
      with src1 src2 assms show ?thesis
        by (auto simp: DecodeRuneInString.simps Let_def split: if_splits)
    next
      case (Cons x3 s3)
      with src1 src2 assms show ?thesis
        by (auto simp: DecodeRuneInString.simps Let_def split: if_splits)
    qed
  qed
qed

lemma appendString_body_no_LF: "LF \<notin> set (appendString_body s)"
proof (induction s rule: appendString_body.induct)
  case 1
  show ?case by (simp add: appendString_body.simps)
next
  case (2 b src)
  show ?case
  proof (cases "(of_char b :: nat) < 0x80")
    case True
    with 2 show ?thesis
      by (subst appendString_body.simps)
         (auto simp: escape_byte_no_LF dest: htmlSafeSet_not_LF)
  next
    case False
    obtain c w where dec: "DecodeRuneInString (b # src) = (c, w)"
      by (cases "DecodeRuneInString (b # src)")
    show ?thesis
    proof (cases "c = RuneError \<and> w = 1")
      case True
      with False 2(2)[OF False dec[symmetric] True] show ?thesis
        by (subst appendString_body.simps) (auto simp: dec)
    next
      case bad: False
      have "\<forall>x \<in> set (take (w - 1) src). \<not> (of_char x :: nat) < 0x80"
        using dec False bad by (rule DecodeRuneInString_tail)
      then have tl: "LF \<notin> set (take (w - 1) src)"
        by auto
      have hx: "LF \<noteq> hex (c mod 16)"
        by (rule hex_not_LF) simp
      from False have b: "LF \<noteq> b" by auto
      show ?thesis
      proof (cases "c = 0x2028 \<or> c = 0x2029")
        case True
        with False bad 2(3)[OF False dec[symmetric] bad True] hx show ?thesis
          by (subst appendString_body.simps) (auto simp: dec)
      next
        case other: False
        with False bad 2(4)[OF False dec[symmetric] bad other] tl b show ?thesis
          by (subst appendString_body.simps) (auto simp: dec)
      qed
    qed
  qed
qed

text \<open>
  A marshalled record holds no line feed and ends with the closing brace, so the line
  that \<^verbatim>\<open>CreateUser\<close> appends is one line for the scanner, and \<^verbatim>\<open>dropCR\<close> leaves it
  as it is.
\<close>

lemma json_Marshal_no_LF: "LF \<notin> set (json_Marshal e)"
  by (simp add: json_Marshal_def json_key_def itoa_no_LF appendString_def
        appendString_body_no_LF)

lemma json_Marshal_last: "json_Marshal e \<noteq> [] \<and> last (json_Marshal e) = CHR ''}''"
  by (simp add: json_Marshal_def)

text \<open>Two examples of the encoding: a plain record, and a login with bytes that are escaped.\<close>

lemma json_Marshal_alice:
  "json_Marshal (JSONUserFS_of alice) =
     ''{'' @ [DQUOTE] @ ''id'' @ [DQUOTE] @ '':7,'' @
     [DQUOTE] @ ''login'' @ [DQUOTE] @ '':'' @ [DQUOTE] @ ''alice'' @ [DQUOTE] @ '','' @
     [DQUOTE] @ ''password'' @ [DQUOTE] @ '':'' @ [DQUOTE] @ ''$2a$hash'' @ [DQUOTE] @ '','' @
     [DQUOTE] @ ''user_id'' @ [DQUOTE] @ '':'' @ [DQUOTE] @ ''S-1'' @ [DQUOTE] @ ''}''"
  by (simp add: json_Marshal_def JSONUserFS_of_def alice_def json_key_def itoa_def
        decimal.simps digit_def appendString_def appendString_body.simps htmlSafeSet_def)

lemma json_Marshal_escapes:
  "json_Marshal
     \<lparr>js_ID = - 120,
      js_Login = [CHR ''a'', DQUOTE, LF, CHR 0x01, CHR ''<'', CHR 0xC3, CHR 0xA9, CHR 0xFF,
                  CHR 0xE2, CHR 0x80, CHR 0xA8, CHR 0xC3],
      js_Password = [], js_UserID = ''u''\<rparr> =
     ''{'' @ [DQUOTE] @ ''id'' @ [DQUOTE] @ '':-120,'' @
     [DQUOTE] @ ''login'' @ [DQUOTE] @ '':'' @ [DQUOTE] @
       ''a'' @ [BSLASH, DQUOTE] @ [BSLASH] @ ''n'' @ [BSLASH] @ ''u0001'' @
       [BSLASH] @ ''u003c'' @ [CHR 0xC3, CHR 0xA9] @ [BSLASH] @ ''ufffd'' @
       [BSLASH] @ ''u2028'' @ [BSLASH] @ ''ufffd'' @ [DQUOTE] @ '','' @
     [DQUOTE] @ ''password'' @ [DQUOTE] @ '':'' @ [DQUOTE] @ [DQUOTE] @ '','' @
     [DQUOTE] @ ''user_id'' @ [DQUOTE] @ '':'' @ [DQUOTE] @ ''u'' @ [DQUOTE] @ ''}''"
  by (simp add: json_Marshal_def json_key_def itoa_def decimal.simps digit_def
        appendString_def appendString_body.simps htmlSafeSet_def escape_byte_def hex_def
        DecodeRuneInString.simps RuneError_def Let_def)

lemma scanner_Scan_line:
  assumes "LF \<notin> set line" and "length line < MaxScanTokenSize"
    and "line \<noteq> []" and "last line \<noteq> CR"
  shows "scanner_Scan (line @ LF # rest) = Some (Inr (line, rest))"
proof -
  have "takeWhile (\<lambda>c. c \<noteq> LF) (line @ LF # rest) = line"
    using assms(1) by (auto simp: takeWhile_tail)
  then show ?thesis
    using assms by (simp add: scanner_Scan_def dropCR_def Let_def)
qed

subsection \<open>Decoding what was encoded\<close>

text \<open>
  \<^verbatim>\<open>utf8.EncodeRune\<close> gives back the bytes from which \<^verbatim>\<open>utf8.DecodeRuneInString\<close>
  has read a rune. The three lemmas on \<open>EncodeRune\<close> are the encodings of two, three
  and four bytes, with the rune split into its groups of six bits.
\<close>

lemma mod_window:
  "q * d \<le> n \<Longrightarrow> n < q * d + d \<Longrightarrow> (n::nat) mod d = n - q * d \<and> n div d = q"
proof -
  assume a: "q * d \<le> n" and b: "n < q * d + d"
  define k where "k = n - q * d"
  have n: "n = k + q * d" and k: "k < d"
    using a b by (simp_all add: k_def)
  have "n mod d = k"
    unfolding n using k by simp
  moreover have "n div d = q"
    unfolding n using k by simp
  ultimately show ?thesis
    by (simp add: k_def)
qed

lemma split64: "d < 64 \<Longrightarrow> (x * 64 + d) div 64 = (x::nat) \<and> (x * 64 + d) mod 64 = d"
  by simp

lemma EncodeRune2:
  assumes "2 \<le> a" "a < 32" "b < 64"
  shows "EncodeRune (a * 64 + b) = [char_of (0xC0 + a), char_of (0x80 + b)]"
proof -
  have "0x80 \<le> a * 64 + b" "a * 64 + b < 0x800"
    using assms by simp_all
  then have c1: "\<not> a * 64 + b < 0x80" and c2: "a * 64 + b < 0x800"
    by linarith+
  have ab: "(a * 64 + b) div 64 = a" "(a * 64 + b) mod 64 = b"
    using split64[of b a] assms(3) by blast+
  have "EncodeRune (a * 64 + b) =
      [char_of (0xC0 + (a * 64 + b) div 64), char_of (0x80 + (a * 64 + b) mod 64)]"
    unfolding EncodeRune_def by (simp only: c1 c2 if_True if_False)
  then show ?thesis
    by (simp only: ab)
qed

lemma EncodeRune3:
  assumes "a < 16" "b < 64" "d < 64"
    and "a = 0 \<Longrightarrow> 32 \<le> b" and "a = 13 \<Longrightarrow> b < 32"
  shows "EncodeRune ((a * 64 + b) * 64 + d) =
           [char_of (0xE0 + a), char_of (0x80 + b), char_of (0x80 + d)]"
proof -
  let ?c = "(a * 64 + b) * 64 + d"
  have lo: "0x800 \<le> ?c"
    using assms by (cases "a = 0") simp_all
  have hi: "?c < 0x10000"
    using assms by simp
  have sur: "\<not> (0xD800 \<le> ?c \<and> ?c \<le> 0xDFFF)"
  proof -
    consider "a \<le> 12" | "a = 13" | "14 \<le> a" by linarith
    then show ?thesis
      using assms by cases simp_all
  qed
  have d1: "?c div 64 = a * 64 + b" and m1: "?c mod 64 = d"
    using split64[of d "a * 64 + b"] assms by simp_all
  have ab: "(a * 64 + b) div 64 = a" "(a * 64 + b) mod 64 = b"
    using split64[of b a] assms(2) by blast+
  have "?c div 4096 = (?c div 64) div 64"
    by (simp add: div_mult2_eq)
  then have d2: "?c div 4096 = a"
    unfolding d1 ab .
  have m2: "(?c div 64) mod 64 = b"
    unfolding d1 ab ..
  from lo hi have c1: "\<not> ?c < 0x80" and c2: "\<not> ?c < 0x800" and c4: "?c < 0x10000"
    and c3: "\<not> 0x10FFFF < ?c"
    by linarith+
  have "EncodeRune ?c =
      [char_of (0xE0 + ?c div 4096), char_of (0x80 + (?c div 64) mod 64),
       char_of (0x80 + ?c mod 64)]"
    unfolding EncodeRune_def by (simp only: c1 c2 c3 c4 sur if_True if_False simp_thms)
  then show ?thesis
    by (simp only: d2 m2 m1)
qed

lemma EncodeRune4:
  assumes "a < 5" "b < 64" "d < 64" "e < 64"
    and "a = 0 \<Longrightarrow> 16 \<le> b" and "a = 4 \<Longrightarrow> b < 16"
  shows "EncodeRune (((a * 64 + b) * 64 + d) * 64 + e) =
           [char_of (0xF0 + a), char_of (0x80 + b), char_of (0x80 + d), char_of (0x80 + e)]"
proof -
  let ?c = "((a * 64 + b) * 64 + d) * 64 + e"
  have lo: "0x10000 \<le> ?c"
    using assms by (cases "a = 0") simp_all
  have hi: "?c \<le> 0x10FFFF"
  proof (cases "a = 4")
    case True
    with assms show ?thesis by simp
  next
    case False
    with assms have "a \<le> 3" by simp
    with assms show ?thesis by simp
  qed
  have d1: "?c div 64 = (a * 64 + b) * 64 + d" and m1: "?c mod 64 = e"
    using split64[of e "(a * 64 + b) * 64 + d"] assms by simp_all
  have abd: "((a * 64 + b) * 64 + d) div 64 = a * 64 + b" "((a * 64 + b) * 64 + d) mod 64 = d"
    using split64[of d "a * 64 + b"] assms(3) by blast+
  have ab: "(a * 64 + b) div 64 = a" "(a * 64 + b) mod 64 = b"
    using split64[of b a] assms(2) by blast+
  have d2: "(?c div 64) div 64 = a * 64 + b" and m2: "(?c div 64) mod 64 = d"
    unfolding d1 abd by (rule refl)+
  have "?c div 4096 = (?c div 64) div 64"
    by (simp add: div_mult2_eq)
  then have d3: "?c div 4096 = a * 64 + b"
    by (simp only: d2)
  have m3: "(?c div 4096) mod 64 = b"
    unfolding d3 ab ..
  have "?c div 262144 = (?c div 4096) div 64"
    by (simp add: div_mult2_eq)
  then have d4: "?c div 262144 = a"
    unfolding d3 ab .
  from lo hi have c1: "\<not> ?c < 0x80" and c2: "\<not> ?c < 0x800" and c4: "\<not> ?c < 0x10000"
    and c3: "\<not> 0x10FFFF < ?c" and c5: "\<not> ?c \<le> 0xDFFF"
    by linarith+
  have "EncodeRune ?c =
      [char_of (0xF0 + ?c div 262144), char_of (0x80 + (?c div 4096) mod 64),
       char_of (0x80 + (?c div 64) mod 64), char_of (0x80 + ?c mod 64)]"
    unfolding EncodeRune_def by (simp only: c1 c2 c3 c4 c5 if_True if_False simp_thms)
  then show ?thesis
    by (simp only: d4 m3 m2 m1)
qed

lemma DecodeRuneInString_shape:
  assumes "DecodeRuneInString (b # src) = (c, w)"
    and "\<not> (of_char b :: nat) < 0x80"
    and "\<not> (c = RuneError \<and> w = 1)"
  shows "(\<exists>b1 s'. src = b1 # s' \<and> w = 2 \<and>
            0xC2 \<le> (of_char b :: nat) \<and> (of_char b :: nat) \<le> 0xDF \<and>
            0x80 \<le> (of_char b1 :: nat) \<and> (of_char b1 :: nat) \<le> 0xBF \<and>
            c = (of_char b mod 32) * 64 + of_char b1 mod 64) \<or>
         (\<exists>b1 b2 s'. src = b1 # b2 # s' \<and> w = 3 \<and>
            0xE0 \<le> (of_char b :: nat) \<and> (of_char b :: nat) \<le> 0xEF \<and>
            0x80 \<le> (of_char b1 :: nat) \<and> (of_char b1 :: nat) \<le> 0xBF \<and>
            ((of_char b :: nat) = 0xE0 \<longrightarrow> 0xA0 \<le> (of_char b1 :: nat)) \<and>
            ((of_char b :: nat) = 0xED \<longrightarrow> (of_char b1 :: nat) \<le> 0x9F) \<and>
            0x80 \<le> (of_char b2 :: nat) \<and> (of_char b2 :: nat) \<le> 0xBF \<and>
            c = (of_char b mod 16) * 4096 + (of_char b1 mod 64) * 64 + of_char b2 mod 64) \<or>
         (\<exists>b1 b2 b3 s'. src = b1 # b2 # b3 # s' \<and> w = 4 \<and>
            0xF0 \<le> (of_char b :: nat) \<and> (of_char b :: nat) \<le> 0xF4 \<and>
            0x80 \<le> (of_char b1 :: nat) \<and> (of_char b1 :: nat) \<le> 0xBF \<and>
            ((of_char b :: nat) = 0xF0 \<longrightarrow> 0x90 \<le> (of_char b1 :: nat)) \<and>
            ((of_char b :: nat) = 0xF4 \<longrightarrow> (of_char b1 :: nat) \<le> 0x8F) \<and>
            0x80 \<le> (of_char b2 :: nat) \<and> (of_char b2 :: nat) \<le> 0xBF \<and>
            0x80 \<le> (of_char b3 :: nat) \<and> (of_char b3 :: nat) \<le> 0xBF \<and>
            c = (of_char b mod 8) * 262144 + (of_char b1 mod 64) * 4096 +
                (of_char b2 mod 64) * 64 + of_char b3 mod 64)"
proof (cases src)
  case Nil
  with assms show ?thesis
    by (auto simp: DecodeRuneInString.simps Let_def split: if_splits)
next
  case (Cons x1 s1)
  note src1 = this
  show ?thesis
  proof (cases s1)
    case Nil
    with src1 assms show ?thesis
      by (auto simp: DecodeRuneInString.simps Let_def split: if_splits)
  next
    case (Cons x2 s2)
    note src2 = this
    show ?thesis
    proof (cases s2)
      case Nil
      with src1 src2 assms show ?thesis
        by (auto simp: DecodeRuneInString.simps Let_def split: if_splits)
    next
      case (Cons x3 s3)
      with src1 src2 assms show ?thesis
        by (auto simp: DecodeRuneInString.simps Let_def split: if_splits)
    qed
  qed
qed

lemma EncodeRune_DecodeRuneInString:
  assumes "DecodeRuneInString (b # src) = (c, w)"
    and "\<not> (of_char b :: nat) < 0x80"
    and "\<not> (c = RuneError \<and> w = 1)"
  shows "EncodeRune c = b # take (w - 1) src"
proof -
  let ?n0 = "of_char b :: nat"
  from DecodeRuneInString_shape[OF assms]
  consider
    (two) b1 s' where "src = b1 # s'" "w = 2"
      "0xC2 \<le> ?n0" "?n0 \<le> 0xDF"
      "0x80 \<le> (of_char b1 :: nat)" "(of_char b1 :: nat) \<le> 0xBF"
      "c = (?n0 mod 32) * 64 + of_char b1 mod 64"
  | (three) b1 b2 s' where "src = b1 # b2 # s'" "w = 3"
      "0xE0 \<le> ?n0" "?n0 \<le> 0xEF"
      "0x80 \<le> (of_char b1 :: nat)" "(of_char b1 :: nat) \<le> 0xBF"
      "?n0 = 0xE0 \<longrightarrow> 0xA0 \<le> (of_char b1 :: nat)"
      "?n0 = 0xED \<longrightarrow> (of_char b1 :: nat) \<le> 0x9F"
      "0x80 \<le> (of_char b2 :: nat)" "(of_char b2 :: nat) \<le> 0xBF"
      "c = (?n0 mod 16) * 4096 + (of_char b1 mod 64) * 64 + of_char b2 mod 64"
  | (four) b1 b2 b3 s' where "src = b1 # b2 # b3 # s'" "w = 4"
      "0xF0 \<le> ?n0" "?n0 \<le> 0xF4"
      "0x80 \<le> (of_char b1 :: nat)" "(of_char b1 :: nat) \<le> 0xBF"
      "?n0 = 0xF0 \<longrightarrow> 0x90 \<le> (of_char b1 :: nat)"
      "?n0 = 0xF4 \<longrightarrow> (of_char b1 :: nat) \<le> 0x8F"
      "0x80 \<le> (of_char b2 :: nat)" "(of_char b2 :: nat) \<le> 0xBF"
      "0x80 \<le> (of_char b3 :: nat)" "(of_char b3 :: nat) \<le> 0xBF"
      "c = (?n0 mod 8) * 262144 + (of_char b1 mod 64) * 4096 +
           (of_char b2 mod 64) * 64 + of_char b3 mod 64"
    by blast
  then show ?thesis
  proof cases
    case two
    define a where "a = ?n0 - 0xC0"
    define k1 where "k1 = (of_char b1 :: nat) - 0x80"
    have n0: "?n0 = 0xC0 + a" and a: "2 \<le> a" "a < 32"
      using two by (simp_all add: a_def)
    have n1: "(of_char b1 :: nat) = 0x80 + k1" and k1: "k1 < 64"
      using two by (simp_all add: k1_def)
    have "?n0 mod 32 = a"
      using mod_window[of 6 32 ?n0] two by (simp add: a_def)
    moreover have "(of_char b1 :: nat) mod 64 = k1"
      using mod_window[of 2 64 "of_char b1"] two by (simp add: k1_def)
    ultimately have c: "c = a * 64 + k1"
      using two by simp
    have "EncodeRune c = [char_of (0xC0 + a), char_of (0x80 + k1)]"
      unfolding c using a k1 by (rule EncodeRune2)
    also have "\<dots> = [b, b1]"
      unfolding n0[symmetric] n1[symmetric] by simp
    finally show ?thesis
      using two by simp
  next
    case three
    define a where "a = ?n0 - 0xE0"
    define k1 where "k1 = (of_char b1 :: nat) - 0x80"
    define k2 where "k2 = (of_char b2 :: nat) - 0x80"
    have n0: "?n0 = 0xE0 + a" and a: "a < 16"
      using three by (simp_all add: a_def)
    have n1: "(of_char b1 :: nat) = 0x80 + k1" and k1: "k1 < 64"
      using three by (simp_all add: k1_def)
    have n2: "(of_char b2 :: nat) = 0x80 + k2" and k2: "k2 < 64"
      using three by (simp_all add: k2_def)
    have low: "a = 0 \<Longrightarrow> 32 \<le> k1" and high: "a = 13 \<Longrightarrow> k1 < 32"
      using three unfolding a_def k1_def by linarith+
    have "?n0 mod 16 = a"
      using mod_window[of 14 16 ?n0] three by (simp add: a_def)
    moreover have "(of_char b1 :: nat) mod 64 = k1"
      using mod_window[of 2 64 "of_char b1"] three by (simp add: k1_def)
    moreover have "(of_char b2 :: nat) mod 64 = k2"
      using mod_window[of 2 64 "of_char b2"] three by (simp add: k2_def)
    ultimately have c: "c = (a * 64 + k1) * 64 + k2"
      using three by simp
    have "EncodeRune c = [char_of (0xE0 + a), char_of (0x80 + k1), char_of (0x80 + k2)]"
      unfolding c using a k1 k2 low high by (rule EncodeRune3)
    also have "\<dots> = [b, b1, b2]"
      unfolding n0[symmetric] n1[symmetric] n2[symmetric] by simp
    finally show ?thesis
      using three by simp
  next
    case four
    define a where "a = ?n0 - 0xF0"
    define k1 where "k1 = (of_char b1 :: nat) - 0x80"
    define k2 where "k2 = (of_char b2 :: nat) - 0x80"
    define k3 where "k3 = (of_char b3 :: nat) - 0x80"
    have n0: "?n0 = 0xF0 + a" and a: "a < 5"
      using four by (simp_all add: a_def)
    have n1: "(of_char b1 :: nat) = 0x80 + k1" and k1: "k1 < 64"
      using four by (simp_all add: k1_def)
    have n2: "(of_char b2 :: nat) = 0x80 + k2" and k2: "k2 < 64"
      using four by (simp_all add: k2_def)
    have n3: "(of_char b3 :: nat) = 0x80 + k3" and k3: "k3 < 64"
      using four by (simp_all add: k3_def)
    have low: "a = 0 \<Longrightarrow> 16 \<le> k1" and high: "a = 4 \<Longrightarrow> k1 < 16"
      using four unfolding a_def k1_def by linarith+
    have "?n0 mod 8 = a"
      using mod_window[of 30 8 ?n0] four by (simp add: a_def)
    moreover have "(of_char b1 :: nat) mod 64 = k1"
      using mod_window[of 2 64 "of_char b1"] four by (simp add: k1_def)
    moreover have "(of_char b2 :: nat) mod 64 = k2"
      using mod_window[of 2 64 "of_char b2"] four by (simp add: k2_def)
    moreover have "(of_char b3 :: nat) mod 64 = k3"
      using mod_window[of 2 64 "of_char b3"] four by (simp add: k3_def)
    ultimately have c: "c = ((a * 64 + k1) * 64 + k2) * 64 + k3"
      using four by simp
    have "EncodeRune c =
        [char_of (0xF0 + a), char_of (0x80 + k1), char_of (0x80 + k2), char_of (0x80 + k3)]"
      unfolding c using a k1 k2 k3 low high by (rule EncodeRune4)
    also have "\<dots> = [b, b1, b2, b3]"
      unfolding n0[symmetric] n1[symmetric] n2[symmetric] n3[symmetric] by simp
    finally show ?thesis
      using four by simp
  qed
qed

text \<open>The digits that the encoder writes are read back as the numbers they stand for.\<close>

lemma hex_table: "\<forall>k \<in> set [0..<16]. hex_value (hex k) = Some k \<and> hex k \<noteq> DQUOTE"
  by code_simp

lemma hex_value_hex: "k < 16 \<Longrightarrow> hex_value (hex k) = Some k"
  using hex_table by simp

lemma digit_table:
  "\<forall>d \<in> set [0..<10]. is_digit (digit d) \<and> int (of_char (digit d)) - 0x30 = int d \<and>
     (digit d = CHR ''0'' \<longleftrightarrow> d = 0)"
  by code_simp

lemma getu4_hex:
  assumes "n < 256"
  shows "getu4 (BSLASH # CHR ''u'' # CHR ''0'' # CHR ''0'' # hex (n div 16) # hex (n mod 16) # X) =
           Some n"
proof -
  have "n div 16 < 16" "n mod 16 < 16"
    using assms by arith+
  then have "hex_value (hex (n div 16)) = Some (n div 16)"
    "hex_value (hex (n mod 16)) = Some (n mod 16)"
    by (simp_all add: hex_value_hex)
  moreover have "hex_value (CHR ''0'') = Some 0"
    by (simp add: hex_value_def)
  ultimately show ?thesis
    by simp
qed

text \<open>
  \<^verbatim>\<open>unquote\<close> on what \<^verbatim>\<open>appendString\<close> writes for one byte or one rune of the source: a
  byte copied as it is, an escaped byte, an escaped line or paragraph separator, and a
  rune copied as it is.
\<close>

lemma DecodeRuneInString_prefix:
  assumes "DecodeRuneInString (b # src) = (c, w)"
    and "\<not> (of_char b :: nat) < 0x80"
    and "\<not> (c = RuneError \<and> w = 1)"
  shows "DecodeRuneInString (b # take (w - 1) src @ rest) = (c, w) \<and>
         drop (w - 1) (take (w - 1) src @ rest) = rest"
proof -
  from DecodeRuneInString_shape[OF assms]
  consider
    (two) b1 s' where "src = b1 # s'" "w = 2"
  | (three) b1 b2 s' where "src = b1 # b2 # s'" "w = 3"
  | (four) b1 b2 b3 s' where "src = b1 # b2 # b3 # s'" "w = 4"
    by blast
  then show ?thesis
  proof cases
    case two
    from assms(1) have "DecodeRuneInString (b # b1 # rest) = (c, w)"
      unfolding two by (simp add: DecodeRuneInString.simps Let_def split: if_splits)
    then show ?thesis
      unfolding two by simp
  next
    case three
    from assms(1) have "DecodeRuneInString (b # b1 # b2 # rest) = (c, w)"
      unfolding three by (simp add: DecodeRuneInString.simps Let_def split: if_splits)
    then show ?thesis
      unfolding three by simp
  next
    case four
    from assms(1) have "DecodeRuneInString (b # b1 # b2 # b3 # rest) = (c, w)"
      unfolding four by (simp add: DecodeRuneInString.simps Let_def split: if_splits)
    then show ?thesis
      unfolding four by simp
  qed
qed

lemma unquote_body_safe:
  assumes "htmlSafeSet b"
  shows "unquote_body (b # X) = prepend [b] (unquote_body X)"
proof -
  from assms have "b \<noteq> DQUOTE" "b \<noteq> BSLASH" "\<not> (of_char b :: nat) < 0x20"
    "(of_char b :: nat) < 0x80"
    by (auto simp: htmlSafeSet_def)
  then show ?thesis
    by (simp add: unquote_body.simps(2)[of b X])
qed

lemma unquote_body_escape_byte:
  assumes "(of_char b :: nat) < 0x80"
  shows "unquote_body (escape_byte b @ X) = prepend [b] (unquote_body X)"
proof -
  consider (quote) "b = BSLASH \<or> b = DQUOTE"
    | (short) "b \<noteq> BSLASH" "b \<noteq> DQUOTE"
        "b = CHR 0x08 \<or> b = CHR 0x0C \<or> b = LF \<or> b = CR \<or> b = CHR 0x09"
    | (long) "b \<noteq> BSLASH" "b \<noteq> DQUOTE" "b \<noteq> CHR 0x08" "b \<noteq> CHR 0x0C" "b \<noteq> LF"
        "b \<noteq> CR" "b \<noteq> CHR 0x09"
    by blast
  then show ?thesis
  proof cases
    case quote
    then show ?thesis
      by (auto simp: escape_byte_def unquote_body.simps(2)[of BSLASH])
  next
    case short
    then show ?thesis
      by (auto simp: escape_byte_def unquote_body.simps(2)[of BSLASH])
  next
    case long
    let ?n = "of_char b :: nat"
    let ?h1 = "hex (?n div 16)"
    let ?h2 = "hex (?n mod 16)"
    have esc: "escape_byte b @ X =
        BSLASH # CHR ''u'' # CHR ''0'' # CHR ''0'' # ?h1 # ?h2 # X"
      using long by (simp add: escape_byte_def)
    have u4: "getu4 (BSLASH # CHR ''u'' # CHR ''0'' # CHR ''0'' # ?h1 # ?h2 # X) = Some ?n"
      using assms by (intro getu4_hex) simp
    have enc: "EncodeRune ?n = [b]"
      using assms by (simp add: EncodeRune_def)
    have "unquote_body (BSLASH # CHR ''u'' # CHR ''0'' # CHR ''0'' # ?h1 # ?h2 # X) =
        prepend (EncodeRune ?n) (unquote_body X)"
      using assms
      by (simp add: unquote_body.simps(2)[of BSLASH "CHR ''u'' # CHR ''0'' # CHR ''0'' # ?h1 # ?h2 # X"]
            u4 del: getu4.simps)
    then show ?thesis
      by (simp only: esc enc)
  qed
qed

lemma unquote_body_separator:
  assumes "c = 0x2028 \<or> c = 0x2029"
  shows "unquote_body (BSLASH # CHR ''u'' # CHR ''2'' # CHR ''0'' # CHR ''2'' # hex (c mod 16) # Y) =
           prepend (EncodeRune c) (unquote_body Y)"
proof -
  from assms consider "c = 0x2028" | "c = 0x2029" by blast
  then show ?thesis
  proof cases
    case 1
    show ?thesis
      unfolding 1
      by (simp add: unquote_body.simps(2)[of BSLASH] hex_def hex_value_def)
  next
    case 2
    show ?thesis
      unfolding 2
      by (simp add: unquote_body.simps(2)[of BSLASH] hex_def hex_value_def)
  qed
qed

lemma unquote_body_rune:
  assumes "DecodeRuneInString (b # src) = (c, w)"
    and "\<not> (of_char b :: nat) < 0x80"
    and "\<not> (c = RuneError \<and> w = 1)"
  shows "unquote_body (b # take (w - 1) src @ Y) = prepend (EncodeRune c) (unquote_body Y)"
proof -
  from assms(2) have b: "b \<noteq> DQUOTE" "b \<noteq> BSLASH" "\<not> (of_char b :: nat) < 0x20"
    by auto
  have pre: "DecodeRuneInString (b # take (w - 1) src @ Y) = (c, w)"
      "drop (w - 1) (take (w - 1) src @ Y) = Y"
    using DecodeRuneInString_prefix[OF assms] by blast+
  show ?thesis
    by (simp only: unquote_body.simps(2)[of b "take (w - 1) src @ Y"] b assms(2) if_False
          pre prod.case)
qed

text \<open>A string of valid UTF-8 is read back from its literal, byte for byte.\<close>

lemma unquote_body_appendString_body:
  assumes "ValidString s"
  shows "unquote_body (appendString_body s @ DQUOTE # rest) = Some (s, rest)"
  using assms
proof (induction s rule: appendString_body.induct)
  case 1
  show ?case
    by (simp add: appendString_body.simps(1) unquote_body.simps(2)[of DQUOTE])
next
  case (2 b src)
  show ?case
  proof (cases "(of_char b :: nat) < 0x80")
    case True
    with "2.prems" have valid: "ValidString src"
      by (simp add: ValidString.simps(2)[of b src])
    note ih = "2.IH"(1)[OF True valid]
    let ?X = "appendString_body src @ DQUOTE # rest"
    have "unquote_body (appendString_body (b # src) @ DQUOTE # rest) =
        prepend [b] (unquote_body ?X)"
    proof (cases "htmlSafeSet b")
      case safe: True
      have "appendString_body (b # src) @ DQUOTE # rest = b # ?X"
        using True safe by (simp add: appendString_body.simps(2)[of b src])
      then show ?thesis
        using safe by (simp only: unquote_body_safe)
    next
      case unsafe: False
      have "appendString_body (b # src) @ DQUOTE # rest = escape_byte b @ ?X"
        using True unsafe by (simp add: appendString_body.simps(2)[of b src])
      then show ?thesis
        using True by (simp only: unquote_body_escape_byte)
    qed
    then show ?thesis
      by (simp add: ih prepend_def)
  next
    case False
    obtain c w where dec: "DecodeRuneInString (b # src) = (c, w)"
      by (cases "DecodeRuneInString (b # src)")
    from "2.prems" False dec have ok: "\<not> (c = RuneError \<and> w = 1)"
      and valid: "ValidString (drop (w - 1) src)"
      by (auto simp: ValidString.simps(2)[of b src] split: if_splits)
    have enc: "EncodeRune c = b # take (w - 1) src"
      using dec False ok by (rule EncodeRune_DecodeRuneInString)
    let ?Y = "appendString_body (drop (w - 1) src) @ DQUOTE # rest"
    have ih: "unquote_body ?Y = Some (drop (w - 1) src, rest)"
    proof (cases "c = 0x2028 \<or> c = 0x2029")
      case True
      show ?thesis
        using "2.IH"(3)[OF False dec[symmetric] ok True valid] .
    next
      case other: False
      show ?thesis
        using "2.IH"(4)[OF False dec[symmetric] ok other valid] .
    qed
    have "unquote_body (appendString_body (b # src) @ DQUOTE # rest) =
        prepend (EncodeRune c) (unquote_body ?Y)"
    proof (cases "c = 0x2028 \<or> c = 0x2029")
      case True
      have "appendString_body (b # src) @ DQUOTE # rest =
          BSLASH # CHR ''u'' # CHR ''2'' # CHR ''0'' # CHR ''2'' # hex (c mod 16) # ?Y"
        using False ok True by (simp add: appendString_body.simps(2)[of b src] dec)
      then show ?thesis
        using True by (simp only: unquote_body_separator)
    next
      case other: False
      have "appendString_body (b # src) @ DQUOTE # rest = b # take (w - 1) src @ ?Y"
        using False ok other by (simp add: appendString_body.simps(2)[of b src] dec)
      then show ?thesis
        by (simp only: unquote_body_rune[OF dec False ok])
    qed
    then show ?thesis
      by (simp only: ih enc prepend_def option.case prod.case append_Cons
            append_take_drop_id)
  qed
qed

text \<open>A number is read back from its decimal digits.\<close>

lemma digit_facts:
  assumes "d < 10"
  shows "is_digit (digit d)" "int (of_char (digit d)) - 0x30 = int d"
    "digit d = CHR ''0'' \<longleftrightarrow> d = 0"
  using digit_table assms by simp_all

lemma decimal_digits: "\<forall>x \<in> set (decimal n). is_digit x"
proof (induction n rule: decimal.induct)
  case (1 n)
  show ?case
  proof (cases "n < 10")
    case True
    then show ?thesis
      by (subst decimal.simps) (simp add: digit_facts)
  next
    case False
    with 1 show ?thesis
      by (subst decimal.simps) (simp add: digit_facts)
  qed
qed

lemma decimal_not_Nil: "decimal n \<noteq> []"
  by (subst decimal.simps) simp

lemma decimal_value:
  "foldl (\<lambda>a c. 10 * a + (int (of_char c) - 0x30)) 0 (decimal n) = int n"
proof (induction n rule: decimal.induct)
  case (1 n)
  show ?case
  proof (cases "n < 10")
    case True
    then show ?thesis
      by (subst decimal.simps) (simp add: digit_facts)
  next
    case False
    have "int n = 10 * int (n div 10) + int (n mod 10)"
      by (simp add: zdiv_int zmod_int)
    with False 1 show ?thesis
      by (subst decimal.simps) (simp add: digit_facts)
  qed
qed

lemma decimal_leading: "hd (decimal n) = CHR ''0'' \<Longrightarrow> n = 0"
proof (induction n rule: decimal.induct)
  case (1 n)
  show ?case
  proof (cases "n < 10")
    case True
    with "1.prems" show ?thesis
      by (subst (asm) decimal.simps) (simp add: digit_facts)
  next
    case False
    with "1.prems" have "hd (decimal (n div 10)) = CHR ''0''"
      by (subst (asm) decimal.simps) (simp add: decimal_not_Nil)
    with False 1 have "n div 10 = 0" by simp
    with False show ?thesis by simp
  qed
qed

lemma decimal_zero: "decimal 0 = ''0''"
  by (subst decimal.simps) (simp add: digit_def)

lemma parse_decimal:
  assumes "\<not> is_digit c"
  shows "takeWhile is_digit (decimal n @ c # rest) = decimal n"
    and "dropWhile is_digit (decimal n @ c # rest) = c # rest"
  using assms decimal_digits[of n] by (simp_all add: takeWhile_tail dropWhile_append3)

lemma parse_int_itoa:
  assumes "- (2 ^ 63) \<le> i" and "i < 2 ^ 63" and "\<not> is_digit c"
  shows "parse_int (itoa i @ c # rest) = Some (i, c # rest)"
proof (cases "i < 0")
  case True
  let ?n = "nat (- i)"
  have s: "itoa i @ c # rest = CHR ''-'' # decimal ?n @ c # rest"
    using True by (simp add: itoa_def)
  have lead: "\<not> (hd (decimal ?n) = CHR ''0'' \<and> length (decimal ?n) > 1)"
    using decimal_leading[of ?n] decimal_zero by auto
  have val: "foldl (\<lambda>a c. 10 * a + (int (of_char c) - 0x30)) 0 (decimal ?n) = - i"
    using True by (simp add: decimal_value)
  show ?thesis
    unfolding s parse_int_def
    using assms lead val
    by (simp add: Let_def parse_decimal[OF assms(3)] decimal_not_Nil)
next
  case False
  let ?n = "nat i"
  have s: "itoa i @ c # rest = decimal ?n @ c # rest"
    using False by (simp add: itoa_def)
  have "is_digit (hd (decimal ?n))"
    using decimal_digits[of ?n] decimal_not_Nil[of ?n] by (cases "decimal ?n") auto
  then have minus: "hd (decimal ?n @ c # rest) \<noteq> CHR ''-''"
    using decimal_not_Nil[of ?n] by (auto simp: is_digit_def)
  have lead: "\<not> (hd (decimal ?n) = CHR ''0'' \<and> length (decimal ?n) > 1)"
    using decimal_leading[of ?n] decimal_zero by auto
  have val: "foldl (\<lambda>a c. 10 * a + (int (of_char c) - 0x30)) 0 (decimal ?n) = i"
    using False by (simp add: decimal_value)
  show ?thesis
    unfolding s parse_int_def
    using assms lead val minus
    by (simp add: Let_def parse_decimal[OF assms(3)] decimal_not_Nil)
qed

subsection \<open>Replaying the file\<close>

text \<open>
  Scanning bytes that end with a line feed, followed by more bytes, is scanning the first
  and then the rest.
\<close>

lemma scan_loop_append:
  assumes "ends_with_newline c"
  shows "scan_loop unm (c @ d) m =
           (case scan_loop unm c m of
              (m', None) \<Rightarrow> scan_loop unm d m'
            | (m', Some e) \<Rightarrow> (m', Some e))"
  using assms
proof (induction unm c m rule: scan_loop.induct)
  case (1 unm c m)
  show ?case
  proof (cases "c = []")
    case True
    then show ?thesis
      by (simp add: scan_loop.simps[of unm "[]"] scanner_Scan_def)
  next
    case False
    with "1.prems" have lastc: "last c = LF"
      by (simp add: ends_with_newline_def)
    with False have mem: "LF \<in> set c"
      using last_in_set by metis
    let ?line = "takeWhile (\<lambda>x. x \<noteq> LF) c"
    have tw: "takeWhile (\<lambda>x. x \<noteq> LF) (c @ d) = ?line"
      using mem by simp
    have "?line \<noteq> c"
      using mem by auto
    moreover have "?line = take (length ?line) c"
      by (rule takeWhile_eq_take)
    ultimately have "length ?line \<noteq> length c"
      by (metis take_all order_refl)
    then have len: "length ?line < length c"
      using length_takeWhile_le[of "\<lambda>x. x \<noteq> LF" c] by simp
    show ?thesis
    proof (cases "MaxScanTokenSize \<le> length ?line")
      case True
      with False tw show ?thesis
        by (simp add: scan_loop.simps[of unm c] scan_loop.simps[of unm "c @ d"]
              scanner_Scan_def Let_def)
    next
      case short: False
      let ?rest = "drop (Suc (length ?line)) c"
      have sc: "scanner_Scan c = Some (Inr (dropCR ?line, ?rest))"
        using False short by (simp add: scanner_Scan_def Let_def)
      have scd: "scanner_Scan (c @ d) = Some (Inr (dropCR ?line, ?rest @ d))"
        using False short tw len by (simp add: scanner_Scan_def Let_def)
      have rest_nl: "ends_with_newline ?rest"
      proof (cases "Suc (length ?line) < length c")
        case True
        then show ?thesis
          using lastc by (simp add: ends_with_newline_def)
      next
        case False
        then show ?thesis
          by (simp add: ends_with_newline_def)
      qed
      show ?thesis
      proof (cases "unm (dropCR ?line)")
        case (Inl e)
        with sc scd show ?thesis
          by (simp add: scan_loop.simps[of unm c] scan_loop.simps[of unm "c @ d"])
      next
        case (Inr user)
        have whole: "scan_loop unm (c @ d) m =
            scan_loop unm (?rest @ d) (m(js_Login user \<mapsto> User_of user))"
          by (simp add: scan_loop.simps[of unm "c @ d"] scd Inr)
        have part: "scan_loop unm c m =
            scan_loop unm ?rest (m(js_Login user \<mapsto> User_of user))"
          by (simp add: scan_loop.simps[of unm c] sc Inr)
        show ?thesis
          unfolding whole part using sc Inr rest_nl by (rule "1.IH"[OF _ refl refl])
      qed
    qed
  qed
qed

lemma User_of_JSONUserFS_of: "User_of (JSONUserFS_of u) = u"
  by (simp add: User_of_def JSONUserFS_of_def)

lemma Login_JSONUserFS_of: "js_Login (JSONUserFS_of u) = Login u"
  by (simp add: JSONUserFS_of_def)

lemma scan_loop_user_lines:
  assumes "\<forall>u \<in> set us. unm (json_Marshal (JSONUserFS_of u)) = Inr (JSONUserFS_of u)"
    and "\<forall>u \<in> set us. length (json_Marshal (JSONUserFS_of u)) < MaxScanTokenSize"
  shows "scan_loop unm (user_lines us) m = (store_all us m, None)"
  using assms
proof (induction us arbitrary: m)
  case Nil
  show ?case
    by (simp add: user_lines_def store_all_def scan_loop.simps[of unm "[]"] scanner_Scan_def)
next
  case (Cons u us)
  let ?line = "json_Marshal (JSONUserFS_of u)"
  have sc: "scanner_Scan (?line @ LF # user_lines us) = Some (Inr (?line, user_lines us))"
    using Cons.prems json_Marshal_last[of "JSONUserFS_of u"]
    by (intro scanner_Scan_line) (auto simp: json_Marshal_no_LF)
  have ul: "user_lines (u # us) = ?line @ LF # user_lines us"
    by (simp add: user_lines_def)
  have "scan_loop unm (user_lines (u # us)) m =
        scan_loop unm (user_lines us) (m(Login u \<mapsto> u))"
    using Cons.prems sc
    by (simp add: ul scan_loop.simps[of unm "?line @ LF # user_lines us"]
          User_of_JSONUserFS_of Login_JSONUserFS_of)
  also have "\<dots> = (store_all us (m(Login u \<mapsto> u)), None)"
    using Cons.prems by (intro Cons.IH) auto
  finally show ?case
    by (simp add: store_all_def)
qed

text \<open>
  What a run of successful registrations leaves behind: one line per user at the end of
  the file, the users in the map, and no login twice.
\<close>

lemma register_users_effect:
  assumes "register_users f0 us = Inr f"
  shows "users_file_bytes f = users_file_bytes f0 @ user_lines us \<and>
         users f = store_all us (users f0) \<and>
         distinct (map Login us) \<and>
         (\<forall>u \<in> set us. users f0 (Login u) = None)"
  using assms
proof (induction us arbitrary: f0)
  case Nil
  then show ?case
    by (simp add: user_lines_def store_all_def)
next
  case (Cons u us)
  obtain f1 where step: "CreateUser NoFault f0 u = (f1, None)"
    and rest: "register_users f1 us = Inr f"
    using Cons.prems by (auto split: prod.splits option.splits)
  from step have new: "users f0 (Login u) = None"
    and us1: "users f1 = (users f0)(Login u \<mapsto> u)"
    and bytes1: "users_file_bytes f1 =
                   users_file_bytes f0 @ json_Marshal (JSONUserFS_of u) @ [LF]"
    by (auto simp: CreateUser_def file_Write_def users_file_bytes_def Let_def
          split: if_splits option.splits)
  from Cons.IH[OF rest] have ih: "users_file_bytes f = users_file_bytes f1 @ user_lines us"
      "users f = store_all us (users f1)" "distinct (map Login us)"
      "\<forall>u \<in> set us. users f1 (Login u) = None"
    by auto
  from ih(4) us1 have notin: "Login u \<notin> Login ` set us"
    by (auto split: if_splits)
  from ih(4) us1 have old: "\<forall>v \<in> set us. users f0 (Login v) = None"
    by (auto split: if_splits)
  show ?case
    using ih new us1 bytes1 notin old
    by (simp add: user_lines_def store_all_def)
qed

lemma store_all_lookup:
  assumes "distinct (map Login us)" and "u \<in> set us"
  shows "store_all us m (Login u) = Some u"
  using assms
proof (induction us arbitrary: m rule: rev_induct)
  case Nil
  then show ?case by simp
next
  case (snoc v us)
  show ?case
  proof (cases "Login u = Login v")
    case True
    have "u = v"
    proof (rule ccontr)
      assume "u \<noteq> v"
      with snoc.prems have "u \<in> set us" by simp
      then have "Login v \<in> Login ` set us"
        using True by (metis imageI)
      with snoc.prems show False by simp
    qed
    then show ?thesis
      by (simp add: store_all_def)
  next
    case False
    with snoc.prems have "u \<in> set us" by auto
    with snoc False show ?thesis
      by (simp add: store_all_def)
  qed
qed

subsection \<open>A line is read back as the record it was written from\<close>

lemma strip_prefix_Nil: "strip_prefix [] s = Some s"
  by (simp add: strip_prefix_def)

lemma strip_prefix_Cons: "strip_prefix (c # p) (c # s) = strip_prefix p s"
  by (simp add: strip_prefix_def)

lemma parse_int_itoa_sint:
  assumes "\<not> is_digit c"
  shows "parse_int (itoa (sint (w :: 64 word)) @ c # rest) = Some (sint w, c # rest)"
proof -
  have "- (2 ^ 63) \<le> sint w" "sint w < 2 ^ 63"
    using sint_ge[of w] sint_lt[of w] by simp_all
  then show ?thesis
    using assms by (rule parse_int_itoa)
qed

lemma json_Unmarshal_json_Marshal:
  assumes "ValidString (js_Login e)" and "ValidString (js_Password e)"
    and "ValidString (js_UserID e)"
  shows "json_Unmarshal (json_Marshal e) = Inr e"
proof -
  have comma: "\<not> is_digit (CHR '','')"
    by (simp add: is_digit_def)
  show ?thesis
    using assms
    by (simp add: json_Unmarshal_def json_Marshal_def appendString_def json_key_def
          strip_prefix_Nil strip_prefix_Cons parse_int_itoa_sint[OF comma]
          unquote_body_appendString_body)
qed

lemma NewFileStorage_fresh: "NewFileStorage Map.empty ''db'' = Inr fresh_store"
  by (simp add: NewFileStorage_def os_OpenFile_def loadUsersFromFile_def fresh_store_def
        scan_loop.simps[of json_Unmarshal "[]"] scanner_Scan_def)

text \<open>
  Claim C7, amended. Let a \<^verbatim>\<open>FileStorage\<close> be opened over a users file that is empty or
  ends with a line feed, and let users be registered through \<^verbatim>\<open>CreateUser\<close>, every call
  returning nil. If the login, the password and the user id of each of them are valid
  UTF-8, and the line written for each is shorter than \<^verbatim>\<open>bufio.MaxScanTokenSize\<close>, then
  a new \<^verbatim>\<open>FileStorage\<close> over the file as written loads without error, holds the users of
  the first, and \<^verbatim>\<open>GetUserByLogin\<close> returns every registered user as it was stored.
\<close>

theorem users_file_replay:
  assumes start: "NewFileStorage disk path = Inr f0"
    and tidy: "ends_with_newline (users_file_bytes f0)"
    and reg: "register_users f0 us = Inr f"
    and utf8: "\<forall>u \<in> set us. ValidString (Login u) \<and> ValidString (Password u) \<and>
                 ValidString (UserID u)"
    and short: "\<forall>u \<in> set us. length (json_Marshal (JSONUserFS_of u)) < MaxScanTokenSize"
  shows "\<exists>f'. restart disk path f = Inr f' \<and> users f' = users f \<and>
           (\<forall>u \<in> set us. GetUserByLogin f' (Login u) = Inr u)"
proof -
  from start obtain h0 where path: "path \<noteq> []"
    and h0: "usersFile f0 = Some h0" "\<not> fclosed h0"
    and load0: "scan_loop json_Unmarshal (fcontent h0) Map.empty = (users f0, None)"
    by (auto simp: NewFileStorage_def loadUsersFromFile_def os_OpenFile_def
          split: if_splits sum.splits option.splits fs_node.splits prod.splits)
  from h0 have bytes0: "users_file_bytes f0 = fcontent h0"
    by (simp add: users_file_bytes_def)
  have codec: "\<forall>u \<in> set us. json_Unmarshal (json_Marshal (JSONUserFS_of u)) =
      Inr (JSONUserFS_of u)"
    using utf8 by (auto intro!: json_Unmarshal_json_Marshal simp: JSONUserFS_of_def)
  note eff = register_users_effect[OF reg]
  have "scan_loop json_Unmarshal (users_file_bytes f) Map.empty =
          scan_loop json_Unmarshal (user_lines us) (users f0)"
    using eff tidy load0 by (simp add: scan_loop_append bytes0)
  also have "\<dots> = (store_all us (users f0), None)"
    using codec short by (rule scan_loop_user_lines)
  finally have replay: "scan_loop json_Unmarshal (users_file_bytes f) Map.empty =
      (users f, None)"
    using eff by simp
  define f' where "f' =
     \<lparr>usersFile = Some \<lparr>fcontent = users_file_bytes f, fclosed = False\<rparr>,
      users = users f, profiles = Map.empty, refresh = Map.empty\<rparr>"
  have "restart disk path f = Inr f'"
    using path replay
    by (simp add: restart_def NewFileStorage_def os_OpenFile_def loadUsersFromFile_def f'_def)
  moreover have "users f' = users f"
    by (simp add: f'_def)
  moreover have "\<forall>u \<in> set us. GetUserByLogin f' (Login u) = Inr u"
    using eff by (simp add: f'_def GetUserByLogin_def store_all_lookup)
  ultimately show ?thesis by blast
qed

theorem users_file_replay_witness:
  "NewFileStorage Map.empty ''db'' = Inr fresh_store \<and>
   ends_with_newline (users_file_bytes fresh_store) \<and>
   register_users fresh_store [alice] = Inr (fst (CreateUser NoFault fresh_store alice)) \<and>
   ValidString (Login alice) \<and> ValidString (Password alice) \<and> ValidString (UserID alice) \<and>
   length (json_Marshal (JSONUserFS_of alice)) < MaxScanTokenSize \<and>
   (\<exists>f'. restart Map.empty ''db'' (fst (CreateUser NoFault fresh_store alice)) = Inr f' \<and>
         GetUserByLogin f' ''alice'' = Inr alice)"
proof -
  have h1: "NewFileStorage Map.empty ''db'' = Inr fresh_store"
    by (rule NewFileStorage_fresh)
  have h2: "ends_with_newline (users_file_bytes fresh_store)"
    by (simp add: ends_with_newline_def users_file_bytes_def fresh_store_def)
  have h3: "register_users fresh_store [alice] =
      Inr (fst (CreateUser NoFault fresh_store alice))"
    by (simp add: CreateUser_def fresh_store_def file_Write_def Let_def)
  have v: "ValidString (Login alice)" "ValidString (Password alice)"
    "ValidString (UserID alice)"
    by (simp_all add: alice_def ValidString.simps)
  have h4: "\<forall>u \<in> set [alice]. ValidString (Login u) \<and> ValidString (Password u) \<and>
      ValidString (UserID u)"
    using v by simp
  have len: "length (json_Marshal (JSONUserFS_of alice)) < MaxScanTokenSize"
    by (simp add: json_Marshal_alice MaxScanTokenSize_def)
  then have h5: "\<forall>u \<in> set [alice]. length (json_Marshal (JSONUserFS_of u)) < MaxScanTokenSize"
    by simp
  have login: "Login alice = ''alice''"
    by (simp add: alice_def)
  from users_file_replay[OF h1 h2 h3 h4 h5]
  have "\<exists>f'. restart Map.empty ''db'' (fst (CreateUser NoFault fresh_store alice)) = Inr f' \<and>
             GetUserByLogin f' ''alice'' = Inr alice"
    by (auto simp: login)
  with h1 h2 h3 v len show ?thesis by blast
qed

text \<open>
  The claim as the specification states it covers every user. \<^verbatim>\<open>json.Marshal\<close> writes
  a byte that is not UTF-8 as the escape of \<^verbatim>\<open>U+FFFD\<close>: a user whose login is the byte
  \<^verbatim>\<open>0xFF\<close> is registered without error, and the store loaded from the file holds the
  user under the three bytes of \<^verbatim>\<open>U+FFFD\<close> and not under the login it was registered
  with. And a user whose login has \<^verbatim>\<open>bufio.MaxScanTokenSize\<close> letters is registered
  without error, the line written for it is longer than the scanner's buffer may grow,
  and a new \<^verbatim>\<open>FileStorage\<close> over the file fails with
  \<^verbatim>\<open>can not load users from file: bufio.Scanner: token too long\<close>.
\<close>

lemma json_Marshal_raw_user:
  "json_Marshal (JSONUserFS_of raw_user) =
     ''{'' @ [DQUOTE] @ ''id'' @ [DQUOTE] @ '':2,'' @
     [DQUOTE] @ ''login'' @ [DQUOTE] @ '':'' @ [DQUOTE] @ [BSLASH] @ ''ufffd'' @ [DQUOTE] @ '','' @
     [DQUOTE] @ ''password'' @ [DQUOTE] @ '':'' @ [DQUOTE] @ ''pw'' @ [DQUOTE] @ '','' @
     [DQUOTE] @ ''user_id'' @ [DQUOTE] @ '':'' @ [DQUOTE] @ ''S-2'' @ [DQUOTE] @ ''}''"
  by (simp add: json_Marshal_def JSONUserFS_of_def raw_user_def json_key_def itoa_def
        decimal.simps digit_def appendString_def appendString_body.simps htmlSafeSet_def
        DecodeRuneInString.simps RuneError_def Let_def)

lemma json_Unmarshal_raw_user:
  "json_Unmarshal (json_Marshal (JSONUserFS_of raw_user)) =
     Inr \<lparr>js_ID = 2, js_Login = [CHR 0xEF, CHR 0xBF, CHR 0xBD], js_Password = ''pw'',
          js_UserID = ''S-2''\<rparr>"
  unfolding json_Marshal_raw_user
  by (simp add: json_Unmarshal_def strip_prefix_def json_key_def parse_int_def is_digit_def
        unquote_body.simps prepend_def Let_def hex_value_def EncodeRune_def
        utf16_DecodeRune_def RuneError_def char_of_def bit_Suc_0_iff)

lemma appendString_body_letters:
  "appendString_body (replicate n (CHR ''a'')) = replicate n (CHR ''a'')"
  by (induction n) (simp_all add: appendString_body.simps htmlSafeSet_def)

theorem users_file_replay_counterexample:
  "snd (CreateUser NoFault fresh_store raw_user) = None \<and>
   restart Map.empty ''db'' (fst (CreateUser NoFault fresh_store raw_user)) =
     Inr \<lparr>usersFile =
            Some \<lparr>fcontent = json_Marshal (JSONUserFS_of raw_user) @ [LF], fclosed = False\<rparr>,
          users = [[CHR 0xEF, CHR 0xBF, CHR 0xBD] \<mapsto>
                     raw_user\<lparr>Login := [CHR 0xEF, CHR 0xBF, CHR 0xBD]\<rparr>],
          profiles = Map.empty, refresh = Map.empty\<rparr> \<and>
   GetUserByLogin
     \<lparr>usersFile =
        Some \<lparr>fcontent = json_Marshal (JSONUserFS_of raw_user) @ [LF], fclosed = False\<rparr>,
      users = [[CHR 0xEF, CHR 0xBF, CHR 0xBD] \<mapsto>
                 raw_user\<lparr>Login := [CHR 0xEF, CHR 0xBF, CHR 0xBD]\<rparr>],
      profiles = Map.empty, refresh = Map.empty\<rparr>
     (Login raw_user) = Inl (ErrUserNotFound (Login raw_user)) \<and>
   snd (CreateUser NoFault fresh_store long_user) = None \<and>
   restart Map.empty ''db'' (fst (CreateUser NoFault fresh_store long_user)) =
     Inl (ErrLoad ErrTooLong)"
proof (intro conjI)
  show "snd (CreateUser NoFault fresh_store raw_user) = None"
    by (simp add: CreateUser_def fresh_store_def file_Write_def Let_def)
  let ?raw = "json_Marshal (JSONUserFS_of raw_user)"
  have raw_bytes: "users_file_bytes (fst (CreateUser NoFault fresh_store raw_user)) =
      ?raw @ [LF]"
    by (simp add: CreateUser_def fresh_store_def file_Write_def Let_def users_file_bytes_def)
  have "length ?raw < MaxScanTokenSize"
    by (simp add: json_Marshal_raw_user MaxScanTokenSize_def)
  then have "scanner_Scan (?raw @ [LF]) = Some (Inr (?raw, []))"
    using json_Marshal_last[of "JSONUserFS_of raw_user"]
    by (intro scanner_Scan_line) (auto simp: json_Marshal_no_LF)
  moreover have "scan_loop json_Unmarshal [] m = (m, None)" for m
    by (simp add: scan_loop.simps[of json_Unmarshal "[]"] scanner_Scan_def)
  moreover have "User_of \<lparr>js_ID = 2, js_Login = [CHR 0xEF, CHR 0xBF, CHR 0xBD],
      js_Password = ''pw'', js_UserID = ''S-2''\<rparr> =
      raw_user\<lparr>Login := [CHR 0xEF, CHR 0xBF, CHR 0xBD]\<rparr>"
    by (simp add: User_of_def raw_user_def)
  ultimately have "scan_loop json_Unmarshal (?raw @ [LF]) Map.empty =
      ([[CHR 0xEF, CHR 0xBF, CHR 0xBD] \<mapsto> raw_user\<lparr>Login := [CHR 0xEF, CHR 0xBF, CHR 0xBD]\<rparr>],
       None)"
    by (simp add: scan_loop.simps[of json_Unmarshal "?raw @ [LF]"] json_Unmarshal_raw_user)
  then show "restart Map.empty ''db'' (fst (CreateUser NoFault fresh_store raw_user)) =
     Inr \<lparr>usersFile = Some \<lparr>fcontent = ?raw @ [LF], fclosed = False\<rparr>,
          users = [[CHR 0xEF, CHR 0xBF, CHR 0xBD] \<mapsto>
                     raw_user\<lparr>Login := [CHR 0xEF, CHR 0xBF, CHR 0xBD]\<rparr>],
          profiles = Map.empty, refresh = Map.empty\<rparr>"
    by (simp add: restart_def NewFileStorage_def os_OpenFile_def loadUsersFromFile_def
          raw_bytes)
  show "GetUserByLogin
     \<lparr>usersFile = Some \<lparr>fcontent = ?raw @ [LF], fclosed = False\<rparr>,
      users = [[CHR 0xEF, CHR 0xBF, CHR 0xBD] \<mapsto>
                 raw_user\<lparr>Login := [CHR 0xEF, CHR 0xBF, CHR 0xBD]\<rparr>],
      profiles = Map.empty, refresh = Map.empty\<rparr>
     (Login raw_user) = Inl (ErrUserNotFound (Login raw_user))"
    by (simp add: GetUserByLogin_def raw_user_def)
  show "snd (CreateUser NoFault fresh_store long_user) = None"
    by (simp add: CreateUser_def fresh_store_def file_Write_def Let_def)
  let ?line = "json_Marshal (JSONUserFS_of long_user)"
  have bytes: "users_file_bytes (fst (CreateUser NoFault fresh_store long_user)) =
      ?line @ [LF]"
    by (simp add: CreateUser_def fresh_store_def file_Write_def Let_def users_file_bytes_def)
  have "length (appendString (Login long_user)) \<le> length ?line"
    by (simp add: json_Marshal_def JSONUserFS_of_def)
  moreover have "length (appendString (Login long_user)) = MaxScanTokenSize + 2"
    by (simp add: long_user_def appendString_def appendString_body_letters)
  ultimately have long: "MaxScanTokenSize \<le> length ?line"
    by simp
  have "takeWhile (\<lambda>c. c \<noteq> LF) (?line @ [LF]) = ?line"
    using json_Marshal_no_LF[of "JSONUserFS_of long_user"]
    by (auto simp: takeWhile_tail)
  with long have "scanner_Scan (?line @ [LF]) = Some (Inl ErrTooLong)"
    by (simp add: scanner_Scan_def Let_def)
  then have "scan_loop json_Unmarshal (?line @ [LF]) Map.empty = (Map.empty, Some ErrTooLong)"
    by (simp add: scan_loop.simps[of json_Unmarshal "?line @ [LF]"])
  then show "restart Map.empty ''db'' (fst (CreateUser NoFault fresh_store long_user)) =
       Inl (ErrLoad ErrTooLong)"
    by (simp add: restart_def NewFileStorage_def os_OpenFile_def loadUsersFromFile_def bytes)
qed

text \<open>
  No decoder could do better on the first of the two: the logins \<^verbatim>\<open>0xFF\<close> and
  \<^verbatim>\<open>0xFE\<close> differ, and the lines written for them are the same.
\<close>

lemma json_Marshal_same_line:
  "Login raw_user \<noteq> Login (raw_user\<lparr>Login := [CHR 0xFE]\<rparr>) \<and>
   json_Marshal (JSONUserFS_of raw_user) =
     json_Marshal (JSONUserFS_of (raw_user\<lparr>Login := [CHR 0xFE]\<rparr>))"
  by (simp add: json_Marshal_def JSONUserFS_of_def raw_user_def appendString_def
        appendString_body.simps DecodeRuneInString.simps RuneError_def Let_def)

text \<open>
  Why the registrations are taken to return nil, on a file that ends with a line feed:
  a write that the operating system cuts short leaves the beginning of a line in the
  file, and the user in the map. The line of the next user, registered
  without error, follows it on the same line, which no longer is a record; a new
  \<^verbatim>\<open>FileStorage\<close> over the file fails.
\<close>

lemma json_Marshal_bob:
  "json_Marshal (JSONUserFS_of bob) =
     ''{'' @ [DQUOTE] @ ''id'' @ [DQUOTE] @ '':8,'' @
     [DQUOTE] @ ''login'' @ [DQUOTE] @ '':'' @ [DQUOTE] @ ''bob'' @ [DQUOTE] @ '','' @
     [DQUOTE] @ ''password'' @ [DQUOTE] @ '':'' @ [DQUOTE] @ ''$2a$hsah'' @ [DQUOTE] @ '','' @
     [DQUOTE] @ ''user_id'' @ [DQUOTE] @ '':'' @ [DQUOTE] @ ''S-3'' @ [DQUOTE] @ ''}''"
  by (simp add: json_Marshal_def JSONUserFS_of_def bob_def json_key_def itoa_def
        decimal.simps digit_def appendString_def appendString_body.simps htmlSafeSet_def)

lemma short_write_breaks_replay:
  "snd (CreateUser (FailAfter 3) fresh_store alice) = Some ErrShortWrite \<and>
   snd (CreateUser NoFault (fst (CreateUser (FailAfter 3) fresh_store alice)) bob) = None \<and>
   restart Map.empty ''db''
     (fst (CreateUser NoFault (fst (CreateUser (FailAfter 3) fresh_store alice)) bob)) =
     Inl (ErrLoad ErrJSON)"
proof (intro conjI)
  show "snd (CreateUser (FailAfter 3) fresh_store alice) = Some ErrShortWrite"
    by (simp add: CreateUser_def fresh_store_def file_Write_def Let_def)
  show "snd (CreateUser NoFault (fst (CreateUser (FailAfter 3) fresh_store alice)) bob) = None"
    by (simp add: CreateUser_def fresh_store_def file_Write_def Let_def alice_def bob_def)
  define line where
    "line = take 3 (json_Marshal (JSONUserFS_of alice)) @ json_Marshal (JSONUserFS_of bob)"
  have bytes: "users_file_bytes
      (fst (CreateUser NoFault (fst (CreateUser (FailAfter 3) fresh_store alice)) bob)) =
      line @ [LF]"
    by (simp add: CreateUser_def fresh_store_def file_Write_def Let_def users_file_bytes_def
          alice_def bob_def json_Marshal_def line_def)
  have glued: "line = ''{'' @ [DQUOTE] @ ''i'' @ json_Marshal (JSONUserFS_of bob)"
    by (simp add: line_def json_Marshal_alice)
  have "LF \<notin> set line"
    unfolding glued by (simp add: json_Marshal_no_LF)
  moreover have "length line < MaxScanTokenSize"
    unfolding glued by (simp add: json_Marshal_bob MaxScanTokenSize_def)
  moreover have "line \<noteq> []" "last line \<noteq> CR"
    unfolding glued using json_Marshal_last[of "JSONUserFS_of bob"] by simp_all
  ultimately have "scanner_Scan (line @ [LF]) = Some (Inr (line, []))"
    by (rule scanner_Scan_line)
  moreover have "json_Unmarshal line = Inl ErrJSON"
    unfolding glued json_Marshal_bob
    by (simp add: json_Unmarshal_def strip_prefix_def json_key_def)
  ultimately have "scan_loop json_Unmarshal (line @ [LF]) Map.empty = (Map.empty, Some ErrJSON)"
    by (simp add: scan_loop.simps[of json_Unmarshal "line @ [LF]"])
  then show "restart Map.empty ''db''
     (fst (CreateUser NoFault (fst (CreateUser (FailAfter 3) fresh_store alice)) bob)) =
     Inl (ErrLoad ErrJSON)"
    by (simp add: restart_def NewFileStorage_def os_OpenFile_def loadUsersFromFile_def bytes)
qed
end
